theory Spec2Isabelle
  imports Main "HOL-Library.Multiset"
begin

section \<open>Mini-batch iterator of the CTC data loader\<close>

text \<open>
  The development embeds \<^verbatim>\<open>DatasetBase\<close> of
  \<^verbatim>\<open>experiments/utils/data/ctc_all_load.py\<close>: the constructor and the generator
  \<^verbatim>\<open>next_batch\<close>. One resumption of the generator (one pass through the body of
  \<^verbatim>\<open>while True\<close>, up to \<^verbatim>\<open>yield\<close>) is the function \<open>next_batch_loop\<close>.

  Three things the Python runtime decides are parameters of the model, collected in the record
  \<open>externals\<close>: the order in which a set is listed (\<^verbatim>\<open>list(self.rest)\<close>), the
  pseudo-random generator behind \<^verbatim>\<open>random.shuffle\<close> and \<^verbatim>\<open>random.sample\<close>
  (its state is threaded through the calls), and the collaborator
  \<^verbatim>\<open>list2sparsetensor\<close>, which is imported from another module. The body calls it in
  two ways: with the label matrix and the sentinel as two arguments (line 192), and, through
  \<^verbatim>\<open>map\<close> over a \<^verbatim>\<open>zip\<close>, with one pair of a label shard and the sentinel (line 187);
  each way of calling is a parameter of its own.
  A frame of an input array (one row of \<open>input_size\<close> features) is a value of a type with a
  zero; the feature axis is not looked into.
\<close>

subsection \<open>Errors\<close>

datatype error =
    InvalidArgument
  | IndexError
  | EmptySequence
  | ShapeMismatch
  | UnevenSplit
  | AttributeError
  | TypeError

text \<open>
  \<open>InvalidArgument\<close> is the \<^verbatim>\<open>ValueError('Set session when using multiple GPUs.')\<close> of
  line 73; \<open>IndexError\<close> an index out of range; \<open>EmptySequence\<close> the \<^verbatim>\<open>ValueError\<close> of
  \<^verbatim>\<open>max\<close> on an empty sequence; \<open>ShapeMismatch\<close> numpy's refusal to broadcast in a slice
  assignment; \<open>UnevenSplit\<close> the refusal of \<^verbatim>\<open>tf.split\<close> to cut an axis into parts of
  unequal size; \<open>AttributeError\<close> a call of \<^verbatim>\<open>session.run\<close> on \<^verbatim>\<open>None\<close>;
  \<open>TypeError\<close> the refusal of \<^verbatim>\<open>range\<close> to take \<^verbatim>\<open>None\<close>.
\<close>

subsection \<open>The object, the generator frame and the runtime\<close>

datatype session = Session

text \<open>
  The attributes of \<^verbatim>\<open>self\<close> that \<^verbatim>\<open>next_batch\<close> reads or writes, as they stand
  once the data have been loaded into the object (the constructor below leaves
  \<^verbatim>\<open>None\<close> in all of them but the first four). \<open>batch_size\<close> is the stored one, already
  multiplied by \<open>num_gpu\<close>.
\<close>

record 'f DatasetBase =
  data_type :: string
  batch_size :: nat
  is_sorted :: bool
  num_gpu :: nat
  data_num :: nat
  input_list :: "'f list list"
  label_list :: "int list list"
  input_paths :: "string list"
  rest :: "nat set"

text \<open>
  The state of a running generator: the object, the locals of the generator frame
  (\<open>batch_size_arg\<close> is the local \<^verbatim>\<open>batch_size\<close> after defaulting), the state of the
  random generator, and what has been printed.
\<close>

record ('f, 'r) state =
  self :: "'f DatasetBase"
  batch_size_arg :: nat
  session_arg :: "session option"
  next_epoch_flag :: bool
  rng :: 'r
  stdout :: "string list"

record ('r, 'sp) externals =
  set_to_list :: "nat set \<Rightarrow> nat list"
  shuffle :: "'r \<Rightarrow> nat list \<Rightarrow> nat list \<times> 'r"
  sample :: "'r \<Rightarrow> nat list \<Rightarrow> nat \<Rightarrow> nat list \<times> 'r"
  list2sparsetensor :: "int list list \<Rightarrow> int \<Rightarrow> 'sp"
  list2sparsetensor_zipped :: "int list list \<times> int \<Rightarrow> 'sp"

text \<open>The dense arrays built by the collation loop, before splitting and sparsification.\<close>

record 'f minibatch =
  inputs :: "'f list list"
  labels :: "int list list"
  inputs_seq_len :: "nat list"
  input_names :: "string list"

text \<open>What \<^verbatim>\<open>yield\<close> hands out: whole arrays, or one list of shards per component.\<close>

datatype ('f, 'sp) yielded =
    Whole "'f list list" 'sp "nat list" "string list"
  | Sharded "'f list list list" "'sp list" "nat list list" "string list list"

subsection \<open>The constructor\<close>

definition full_pool :: "nat \<Rightarrow> nat set" where
  "full_pool n = set [0..<n]"

text \<open>\<^verbatim>\<open>range(n)\<close>, where \<open>n\<close> may be \<^verbatim>\<open>None\<close>.\<close>

definition py_range :: "nat option \<Rightarrow> error + nat list" where
  "py_range n = (case n of None \<Rightarrow> Inl TypeError | Some k \<Rightarrow> Inr [0..<k])"

text \<open>
  What \<^verbatim>\<open>__init__\<close> has written into the object when it ends: the arguments it stores
  (lines 36 to 41), \<open>data_num\<close> (line 52) and, if line 57 gets that far, the pool. The other
  attributes of lines 43 to 56 all hold \<^verbatim>\<open>None\<close> and are left out.
\<close>

record init_stored =
  st_data_type :: string
  st_label_type :: string
  st_batch_size :: nat
  st_is_sorted :: bool
  st_is_progressbar :: bool
  st_num_gpu :: nat
  st_data_num :: "nat option"
  st_rest :: "nat set option"

text \<open>
  Lines 22 to 57. The constructor stores its arguments, the batch size multiplied by
  \<open>num_gpu\<close>; it sets \<open>data_num\<close> to \<^verbatim>\<open>None\<close> and then builds the pool from
  \<^verbatim>\<open>range(self.data_num)\<close>. The result is what the call evaluates to, with the attributes
  as they are at that moment.
\<close>

definition DatasetBase_init ::
  "string \<Rightarrow> string \<Rightarrow> nat \<Rightarrow> nat option \<Rightarrow> nat option \<Rightarrow> bool \<Rightarrow> bool \<Rightarrow> nat
     \<Rightarrow> (error + unit) \<times> init_stored" where
  "DatasetBase_init dtype ltype bsize num_stack num_skip srt progressbar ngpu =
     (let stored = \<lparr> st_data_type = dtype, st_label_type = ltype,
                      st_batch_size = bsize * ngpu, st_is_sorted = srt,
                      st_is_progressbar = progressbar, st_num_gpu = ngpu,
                      st_data_num = None, st_rest = None \<rparr>
      in case py_range (st_data_num stored) of
           Inl e \<Rightarrow> (Inl e, stored)
         | Inr r \<Rightarrow> (Inr (), stored\<lparr> st_rest := Some (set r) \<rparr>))"

subsection \<open>Helpers standing for library calls\<close>

definition padded_value :: int where
  "padded_value = - 1"

text \<open>\<^verbatim>\<open>os.path.basename(p)\<close>: what follows the last slash.\<close>

definition basename :: "string \<Rightarrow> string" where
  "basename p = rev (takeWhile (\<lambda>c. c \<noteq> CHR ''/'') (rev p))"

text \<open>\<^verbatim>\<open>s.split('.')[0]\<close>: what precedes the first dot.\<close>

definition split_dot_first :: "string \<Rightarrow> string" where
  "split_dot_first s = takeWhile (\<lambda>c. c \<noteq> CHR ''.'') s"

definition name_of_path :: "string \<Rightarrow> string" where
  "name_of_path p = split_dot_first (basename p)"

text \<open>Indexing a sequence with one index, and with a list of indices (numpy).\<close>

definition index1 :: "'a list \<Rightarrow> nat \<Rightarrow> error + 'a" where
  "index1 a x = (if x < length a then Inr (a ! x) else Inl IndexError)"

definition fancy :: "'a list \<Rightarrow> nat list \<Rightarrow> error + 'a list" where
  "fancy a idx =
     (if \<forall>x \<in> set idx. x < length a then Inr (map ((!) a) idx) else Inl IndexError)"

fun py_max :: "nat list \<Rightarrow> error + nat" where
  "py_max [] = Inl EmptySequence"
| "py_max (x # xs) = Inr (fold max xs x)"

text \<open>
  \<^verbatim>\<open>row[:len(d)] = d\<close> on a row of \<open>m\<close> cells that all hold \<open>pad\<close>. The slice has
  \<open>min (len d) m\<close> cells; numpy copies when the lengths agree, broadcasts a source of
  length one (here only onto an empty slice), and raises otherwise.
\<close>

definition assign_prefix :: "'a \<Rightarrow> nat \<Rightarrow> 'a list \<Rightarrow> error + 'a list" where
  "assign_prefix pad m d =
     (if length d \<le> m then Inr (d @ replicate (m - length d) pad)
      else if length d = 1 then Inr (replicate m pad)
      else Inl ShapeMismatch)"

text \<open>A \<^verbatim>\<open>for\<close> loop that builds one result per element and stops at the first exception.\<close>

fun collect :: "('a \<Rightarrow> error + 'b) \<Rightarrow> 'a list \<Rightarrow> error + 'b list" where
  "collect f [] = Inr []"
| "collect f (x # xs) =
     (case f x of
        Inl e \<Rightarrow> Inl e
      | Inr y \<Rightarrow> (case collect f xs of Inl e \<Rightarrow> Inl e | Inr ys \<Rightarrow> Inr (y # ys)))"

text \<open>\<^verbatim>\<open>tf.split(value, k, axis=0)\<close>: \<open>k\<close> slices of equal size along the batch axis.\<close>

fun chunks :: "nat \<Rightarrow> nat \<Rightarrow> 'a list \<Rightarrow> 'a list list" where
  "chunks sz 0 xs = []"
| "chunks sz (Suc k) xs = take sz xs # chunks sz k (drop sz xs)"

definition tf_split :: "'a list \<Rightarrow> nat \<Rightarrow> error + 'a list list" where
  "tf_split xs k =
     (if k = 0 \<or> length xs mod k \<noteq> 0 then Inl UnevenSplit
      else Inr (chunks (length xs div k) k xs))"

subsection \<open>The body of the generator\<close>

text \<open>Lines 72 to 79: what runs when the generator is first resumed.\<close>

definition next_batch_begin ::
  "'f DatasetBase \<Rightarrow> nat option \<Rightarrow> session option \<Rightarrow> 'r \<Rightarrow> string list
     \<Rightarrow> error + ('f, 'r) state" where
  "next_batch_begin slf bsize sess r out =
     (if sess = None \<and> num_gpu slf \<noteq> 1 then Inl InvalidArgument
      else Inr \<lparr> self = slf,
                 batch_size_arg = (case bsize of None \<Rightarrow> batch_size slf | Some b \<Rightarrow> b),
                 session_arg = sess, next_epoch_flag = False, rng = r, stdout = out \<rparr>)"

text \<open>Lines 91 to 94 and 135 to 138: the pool is reset and the next epoch announced.\<close>

definition rollover :: "('f, 'r) state \<Rightarrow> ('f, 'r) state" where
  "rollover s =
     s\<lparr> self := (self s)\<lparr> rest := full_pool (data_num (self s)) \<rparr>,
        next_epoch_flag := True,
        stdout := (if data_type (self s) = ''train''
                   then stdout s @ [''---Next epoch---''] else stdout s) \<rparr>"

definition remove_drawn :: "nat list \<Rightarrow> ('f, 'r) state \<Rightarrow> ('f, 'r) state" where
  "remove_drawn idx s = s\<lparr> self := (self s)\<lparr> rest := rest (self s) - set idx \<rparr> \<rparr>"

text \<open>Lines 86 to 92: the indices of the sorted branch.\<close>

definition pick_sorted ::
  "('r, 'sp) externals \<Rightarrow> ('f, 'r) state \<Rightarrow> nat list \<times> ('f, 'r) state" where
  "pick_sorted ext s =
     (if card (rest (self s)) > batch_size_arg s then
        (let sorted_indices = take (batch_size_arg s) (set_to_list ext (rest (self s)))
         in (sorted_indices, remove_drawn sorted_indices s))
      else (set_to_list ext (rest (self s)), rollover s))"

text \<open>Lines 128 to 141: the indices of the other branch, shuffled at a rollover only.\<close>

definition pick_random ::
  "('r, 'sp) externals \<Rightarrow> ('f, 'r) state \<Rightarrow> nat list \<times> ('f, 'r) state" where
  "pick_random ext s =
     (if card (rest (self s)) > batch_size_arg s then
        (let (random_indices, r) =
               sample ext (rng s) (set_to_list ext (rest (self s))) (batch_size_arg s)
         in (random_indices, remove_drawn random_indices (s\<lparr> rng := r \<rparr>)))
      else
        (let s1 = rollover s;
             (random_indices, r) = shuffle ext (rng s1) (set_to_list ext (rest (self s)))
         in (random_indices, s1\<lparr> rng := r \<rparr>)))"

text \<open>Lines 115 to 122 and 160 to 167: one example is written into its row.\<close>

definition fill_one ::
  "'f::zero DatasetBase \<Rightarrow> nat \<Rightarrow> nat \<Rightarrow> nat \<Rightarrow> error + ('f list \<times> int list \<times> nat \<times> string)" where
  "fill_one slf max_frame_num max_seq_len x =
     (case index1 (input_list slf) x of
        Inl e \<Rightarrow> Inl e
      | Inr data_i \<Rightarrow>
          (case assign_prefix 0 max_frame_num data_i of
             Inl e \<Rightarrow> Inl e
           | Inr row \<Rightarrow>
               (case index1 (label_list slf) x of
                  Inl e \<Rightarrow> Inl e
                | Inr lab \<Rightarrow>
                    (case assign_prefix padded_value max_seq_len lab of
                       Inl e \<Rightarrow> Inl e
                     | Inr lrow \<Rightarrow>
                         (case index1 (input_paths slf) x of
                            Inl e \<Rightarrow> Inl e
                          | Inr p \<Rightarrow> Inr (row, lrow, length data_i, name_of_path p))))))"

text \<open>Lines 106 to 122 and 151 to 167: allocation and the collation loop.\<close>

definition fill ::
  "'f::zero DatasetBase \<Rightarrow> nat \<Rightarrow> nat \<Rightarrow> nat list \<Rightarrow> error + 'f minibatch" where
  "fill slf max_frame_num max_seq_len idx =
     (case collect (fill_one slf max_frame_num max_seq_len) idx of
        Inl e \<Rightarrow> Inl e
      | Inr rows \<Rightarrow>
          Inr \<lparr> inputs = map fst rows,
                labels = map (\<lambda>r. fst (snd r)) rows,
                inputs_seq_len = map (\<lambda>r. fst (snd (snd r))) rows,
                input_names = map (\<lambda>r. snd (snd (snd r))) rows \<rparr>)"

text \<open>
  Lines 85 to 122. \<open>max_frame_num\<close> is read off the last index of the unshuffled list,
  \<open>max_seq_len\<close> is a true maximum, and the shuffle comes after both.
\<close>

definition draw_sorted ::
  "('r, 'sp) externals \<Rightarrow> ('f::zero, 'r) state
     \<Rightarrow> (error + nat list \<times> 'f minibatch) \<times> ('f, 'r) state" where
  "draw_sorted ext s =
     (let (sorted_indices, s1) = pick_sorted ext s in
      if sorted_indices = [] then (Inl IndexError, s1)
      else
        (case index1 (input_list (self s1)) (last sorted_indices) of
           Inl e \<Rightarrow> (Inl e, s1)
         | Inr d \<Rightarrow>
             (case fancy (label_list (self s1)) sorted_indices of
                Inl e \<Rightarrow> (Inl e, s1)
              | Inr labs \<Rightarrow>
                  (case py_max (map length labs) of
                     Inl e \<Rightarrow> (Inl e, s1)
                   | Inr max_seq_len \<Rightarrow>
                       (let (shuffled, r) = shuffle ext (rng s1) sorted_indices;
                            s2 = s1\<lparr> rng := r \<rparr>
                        in case fill (self s2) (length d) max_seq_len shuffled of
                             Inl e \<Rightarrow> (Inl e, s2)
                           | Inr mb \<Rightarrow> (Inr (shuffled, mb), s2))))))"

text \<open>Lines 128 to 167. Both maxima are true maxima over the drawn examples.\<close>

definition draw_random ::
  "('r, 'sp) externals \<Rightarrow> ('f::zero, 'r) state
     \<Rightarrow> (error + nat list \<times> 'f minibatch) \<times> ('f, 'r) state" where
  "draw_random ext s =
     (let (random_indices, s1) = pick_random ext s in
      case fancy (input_list (self s1)) random_indices of
        Inl e \<Rightarrow> (Inl e, s1)
      | Inr datas \<Rightarrow>
          (case py_max (map length datas) of
             Inl e \<Rightarrow> (Inl e, s1)
           | Inr max_frame_num \<Rightarrow>
               (case fancy (label_list (self s1)) random_indices of
                  Inl e \<Rightarrow> (Inl e, s1)
                | Inr labs \<Rightarrow>
                    (case py_max (map length labs) of
                       Inl e \<Rightarrow> (Inl e, s1)
                     | Inr max_seq_len \<Rightarrow>
                         (case fill (self s1) max_frame_num max_seq_len random_indices of
                            Inl e \<Rightarrow> (Inl e, s1)
                          | Inr mb \<Rightarrow> (Inr (random_indices, mb), s1))))))"

text \<open>
  Lines 85 to 167. Besides the dense arrays the result names the index list that was drawn
  (the final value of \<^verbatim>\<open>sorted_indices\<close> or \<^verbatim>\<open>random_indices\<close>), so that
  theorems can speak about the drawn examples.
\<close>

definition make_batch ::
  "('r, 'sp) externals \<Rightarrow> ('f::zero, 'r) state
     \<Rightarrow> (error + nat list \<times> 'f minibatch) \<times> ('f, 'r) state" where
  "make_batch ext s = (if is_sorted (self s) then draw_sorted ext s else draw_random ext s)"

text \<open>Lines 172 to 175: the first \<open>i\<close> from \<open>num_gpu\<close> down to 1 that divides \<open>n\<close>.\<close>

fun find_divisor :: "nat \<Rightarrow> nat \<Rightarrow> nat \<Rightarrow> nat" where
  "find_divisor n 0 dflt = dflt"
| "find_divisor n (Suc i) dflt =
     (if n mod Suc i = 0 then Suc i else find_divisor n i dflt)"

text \<open>
  Lines 170 to 176. The length tested is that of \<^verbatim>\<open>self.rest\<close> as it is at this point,
  which after a rollover is the pool already reset.
\<close>

definition choose_divide_num :: "('f, 'r) state \<Rightarrow> nat \<times> ('f, 'r) state" where
  "choose_divide_num s =
     (if next_epoch_flag s then
        (find_divisor (card (rest (self s))) (num_gpu (self s)) (num_gpu (self s)),
         s\<lparr> next_epoch_flag := False \<rparr>)
      else (num_gpu (self s), s))"

text \<open>Lines 169 to 195: splitting, materialisation by the session, sparse labels.\<close>

definition emit ::
  "('r, 'sp) externals \<Rightarrow> 'f minibatch \<Rightarrow> ('f, 'r) state
     \<Rightarrow> (error + ('f, 'sp) yielded) \<times> ('f, 'r) state" where
  "emit ext mb s =
     (if num_gpu (self s) > 1 then
        (let (divide_num, s1) = choose_divide_num s in
         case tf_split (inputs mb) divide_num of
           Inl e \<Rightarrow> (Inl e, s1)
         | Inr ins \<Rightarrow>
             (case tf_split (labels mb) divide_num of
                Inl e \<Rightarrow> (Inl e, s1)
              | Inr labs \<Rightarrow>
                  (case tf_split (inputs_seq_len mb) divide_num of
                     Inl e \<Rightarrow> (Inl e, s1)
                   | Inr lens \<Rightarrow>
                       (case tf_split (input_names mb) divide_num of
                          Inl e \<Rightarrow> (Inl e, s1)
                        | Inr names \<Rightarrow>
                            (case session_arg s1 of
                               None \<Rightarrow> (Inl AttributeError, s1)
                             | Some sess \<Rightarrow>
                                 (Inr (Sharded ins
                                        (map (list2sparsetensor_zipped ext)
                                           (zip labs (replicate (length labs) padded_value)))
                                        lens names), s1))))))
      else
        (Inr (Whole (inputs mb) (list2sparsetensor ext (labels mb) padded_value)
                (inputs_seq_len mb) (input_names mb)), s))"

text \<open>One resumption of the generator: lines 81 to 195.\<close>

definition next_batch_loop ::
  "('r, 'sp) externals \<Rightarrow> ('f::zero, 'r) state
     \<Rightarrow> (error + ('f, 'sp) yielded) \<times> ('f, 'r) state" where
  "next_batch_loop ext s =
     (case make_batch ext s of
        (Inl e, s1) \<Rightarrow> (Inl e, s1)
      | (Inr (idx, mb), s1) \<Rightarrow> emit ext mb s1)"

text \<open>
  The first \<^verbatim>\<open>next()\<close> on a fresh generator: the result, and the object, random state
  and output as they are afterwards.
\<close>

definition next_batch_first ::
  "('r, 'sp) externals \<Rightarrow> 'f::zero DatasetBase \<Rightarrow> nat option \<Rightarrow> session option \<Rightarrow> 'r
     \<Rightarrow> string list
     \<Rightarrow> (error + ('f, 'sp) yielded) \<times> 'f DatasetBase \<times> 'r \<times> string list" where
  "next_batch_first ext slf bsize sess r out =
     (case next_batch_begin slf bsize sess r out of
        Inl e \<Rightarrow> (Inl e, slf, r, out)
      | Inr s \<Rightarrow>
          (let (res, s1) = next_batch_loop ext s in (res, self s1, rng s1, stdout s1)))"

text \<open>
  \<open>k\<close> successive resumptions that all yield: for each, the index list drawn and the value
  yielded; the first exception ends the run.
\<close>

fun run ::
  "nat \<Rightarrow> ('r, 'sp) externals \<Rightarrow> ('f::zero, 'r) state
     \<Rightarrow> error + ((nat list \<times> ('f, 'sp) yielded) list \<times> ('f, 'r) state)" where
  "run 0 ext s = Inr ([], s)"
| "run (Suc k) ext s =
     (case make_batch ext s of
        (Inl e, s1) \<Rightarrow> Inl e
      | (Inr (idx, mb), s1) \<Rightarrow>
          (case emit ext mb s1 of
             (Inl e, s2) \<Rightarrow> Inl e
           | (Inr y, s2) \<Rightarrow>
               (case run k ext s2 of
                  Inl e \<Rightarrow> Inl e
                | Inr (tr, s3) \<Rightarrow> Inr ((idx, y) # tr, s3))))"

subsection \<open>What is assumed of the runtime\<close>

text \<open>
  Listing a finite set gives each of its elements once; a shuffle permutes its argument;
  a sample of \<open>k\<close> out of a list is a sub-multiset of size \<open>k\<close>.
\<close>

definition lists_sets :: "('r, 'sp) externals \<Rightarrow> bool" where
  "lists_sets ext \<longleftrightarrow>
     (\<forall>S. finite S \<longrightarrow> set (set_to_list ext S) = S \<and> distinct (set_to_list ext S))"

definition shuffle_permutes :: "('r, 'sp) externals \<Rightarrow> bool" where
  "shuffle_permutes ext \<longleftrightarrow> (\<forall>r xs. mset (fst (shuffle ext r xs)) = mset xs)"

definition sample_draws :: "('r, 'sp) externals \<Rightarrow> bool" where
  "sample_draws ext \<longleftrightarrow>
     (\<forall>r xs k. k \<le> length xs \<longrightarrow>
        mset (fst (sample ext r xs k)) \<subseteq># mset xs \<and> length (fst (sample ext r xs k)) = k)"

definition runtime_ok :: "('r, 'sp) externals \<Rightarrow> bool" where
  "runtime_ok ext \<longleftrightarrow> lists_sets ext \<and> shuffle_permutes ext \<and> sample_draws ext"

text \<open>
  Removing elements from a set leaves the listing order of the others as it was. Python
  promises no such thing; the sorted branch relies on it.
\<close>

definition keeps_order :: "('r, 'sp) externals \<Rightarrow> bool" where
  "keeps_order ext \<longleftrightarrow>
     (\<forall>S D. finite S \<longrightarrow> set_to_list ext (S - D) = filter (\<lambda>x. x \<notin> D) (set_to_list ext S))"

text \<open>The index list chosen from the pool in state \<open>s\<close>, before any shuffle of the sorted branch.\<close>

definition picked :: "('r, 'sp) externals \<Rightarrow> ('f, 'r) state \<Rightarrow> nat list" where
  "picked ext s =
     (if is_sorted (self s) then fst (pick_sorted ext s) else fst (pick_random ext s))"

text \<open>The number of frames and of labels of example \<open>x\<close>.\<close>

definition frame_num :: "'f DatasetBase \<Rightarrow> nat \<Rightarrow> nat" where
  "frame_num slf x = length (input_list slf ! x)"

definition label_num :: "'f DatasetBase \<Rightarrow> nat \<Rightarrow> nat" where
  "label_num slf x = length (label_list slf ! x)"

text \<open>The pool as one pass through the loop body leaves it.\<close>

definition next_pool :: "('r, 'sp) externals \<Rightarrow> ('f, 'r) state \<Rightarrow> nat set" where
  "next_pool ext s =
     (if card (rest (self s)) > batch_size_arg s then rest (self s) - set (picked ext s)
      else full_pool (data_num (self s)))"

text \<open>
  The specification's wording for the name: the base name without its file extension. The
  extension starts at the last dot of the base name; dots that lead the name start none
  (the convention of \<^verbatim>\<open>os.path.splitext\<close>).
\<close>

definition spec_strip_extension :: "string \<Rightarrow> string" where
  "spec_strip_extension b =
     (let lead = takeWhile (\<lambda>c. c = CHR ''.'') b;
          body = dropWhile (\<lambda>c. c = CHR ''.'') b
      in if CHR ''.'' \<in> set body
         then lead @ rev (tl (dropWhile (\<lambda>c. c \<noteq> CHR ''.'') (rev body)))
         else b)"

text \<open>
  The time width of the padded input array as the body computes it: in the sorted branch the
  frame count of the last index of the unshuffled list, otherwise the maximum over the list.
\<close>

definition width_T :: "('r, 'sp) externals \<Rightarrow> ('f, 'r) state \<Rightarrow> nat" where
  "width_T ext s = (if is_sorted (self s) then frame_num (self s) (last (picked ext s))
     else Max (frame_num (self s) ` set (picked ext s)))"

text \<open>
  The examples of the pool, taken in the order in which the pool is listed, have frame counts
  that do not decrease: what the sorted branch expects of the loader.
\<close>

definition length_ordered :: "('r, 'sp) externals \<Rightarrow> ('f, 'r) state \<Rightarrow> bool" where
  "length_ordered ext s \<longleftrightarrow>
     sorted (map (frame_num (self s)) (set_to_list ext (rest (self s))))"



subsection \<open>A reference runtime and sample data\<close>

text \<open>
  A runtime that lists sets in ascending order, reverses where Python shuffles and samples
  from the end; the sparse labels are left as the pair of the dense matrix and the sentinel.
\<close>

definition ref_ext :: "(nat, int list list \<times> int) externals" where
  "ref_ext = \<lparr> set_to_list = sorted_list_of_set,
               shuffle = (\<lambda>r xs. (rev xs, Suc r)),
               sample = (\<lambda>r xs k. (take k (rev xs), Suc r)),
               list2sparsetensor = Pair,
               list2sparsetensor_zipped = (\<lambda>p. p) \<rparr>"

text \<open>Five examples with 3, 3, 4, 4 and 5 frames, as in the scenario of the specification.\<close>

definition demo_inputs :: "nat list list" where
  "demo_inputs = [[1, 2, 3], [4, 5, 6], [1, 1, 1, 1], [2, 2, 2, 2], [9, 9, 9, 9, 9]]"

definition demo_labels :: "int list list" where
  "demo_labels = [[1], [2, 3], [4], [5, 6, 7], [8]]"

definition demo_paths :: "string list" where
  "demo_paths = [''a/u0.npy'', ''a/u1.npy'', ''a/u2.npy'', ''a/u3.x.npy'', ''u4'']"

text \<open>
  A generator frame on an object as a concrete loader leaves it: the sample data loaded, the
  first \<open>n\<close> indices in the pool, and \<open>bsize * ngpu\<close> as the stored batch size. The
  generator has taken the stored batch size as its own.
\<close>

definition demo_state :: "bool \<Rightarrow> nat \<Rightarrow> nat \<Rightarrow> nat \<Rightarrow> session option \<Rightarrow> (nat, nat) state" where
  "demo_state srt bsize ngpu n sess =
     \<lparr> self = \<lparr> data_type = ''train'', batch_size = bsize * ngpu, is_sorted = srt,
                num_gpu = ngpu, data_num = n, input_list = demo_inputs,
                label_list = demo_labels, input_paths = demo_paths, rest = full_pool n \<rparr>,
       batch_size_arg = bsize * ngpu, session_arg = sess, next_epoch_flag = False,
       rng = 0, stdout = [] \<rparr>"

text \<open>The first batch of three of the sorted iterator over the sample data.\<close>

definition demo_batch3 :: "nat minibatch" where
  "demo_batch3 = \<lparr> inputs = [[1, 1, 1, 1], [4, 5, 6, 0], [1, 2, 3, 0]],
             labels = [[4, - 1], [2, 3], [1, - 1]],
             inputs_seq_len = [4, 3, 3],
             input_names = [''u2'', ''u1'', ''u0''] \<rparr>"

text \<open>The sample state with another pool and random state: what a run leaves behind.\<close>

definition demo_after :: "(nat, nat) state \<Rightarrow> nat set \<Rightarrow> nat \<Rightarrow> (nat, nat) state" where
  "demo_after s P r = s\<lparr> self := (self s)\<lparr> rest := P \<rparr>, rng := r \<rparr>"

subsection \<open>Sets as CPython lists them, and data on which that matters\<close>

text \<open>
  The reference runtime, except that the set \<open>{14, 15, 16}\<close> is listed as \<open>16, 14, 15\<close>. This
  is the order in which CPython 3.11 lists the pool \<^verbatim>\<open>set(range(17))\<close> once the indices 0 to 13
  have been taken out of it by \<^verbatim>\<open>self.rest -= set(sorted_indices)\<close> in two steps of seven; the
  full pool and the pool of 7 to 16 it lists in ascending order, as the reference runtime does.
\<close>

definition cpython_ext :: "(nat, int list list \<times> int) externals" where
  "cpython_ext =
     ref_ext\<lparr> set_to_list :=
       (\<lambda>S. if S = {14, 15, 16} then [16, 14, 15] else sorted_list_of_set S) \<rparr>"


definition uniform17 :: "nat list list" where
  "uniform17 = replicate 17 [1]"

definition empty16_one :: "nat list list" where
  "empty16_one = replicate 16 [] @ [[1]]"

text \<open>
  A generator frame on a sorted loader of seventeen examples with a stored batch size of 7 and
  one replica, for the given arrays, batch size of the generator, pool and random state.
\<close>

definition seventeen :: "nat list list \<Rightarrow> nat \<Rightarrow> nat set \<Rightarrow> nat \<Rightarrow> (nat, nat) state" where
  "seventeen ins bsize P r =
     \<lparr> self = \<lparr> data_type = ''dev'', batch_size = 7, is_sorted = True, num_gpu = 1,
                data_num = 17, input_list = ins, label_list = replicate 17 [1],
                input_paths = replicate 17 ''u.npy'', rest = P \<rparr>,
       batch_size_arg = bsize, session_arg = None, next_epoch_flag = False,
       rng = r, stdout = [] \<rparr>"



section \<open>Auxiliary facts\<close>

subsection \<open>The reference runtime meets the assumptions\<close>

lemma mset_take_subseteq: "mset (take k xs) \<subseteq># mset xs"
  by (metis append_take_drop_id mset_append mset_subset_eq_add_left)

lemma runtime_ok_ref: "runtime_ok ref_ext"
  unfolding runtime_ok_def lists_sets_def shuffle_permutes_def sample_draws_def ref_ext_def
  using mset_take_subseteq[of _ "rev _"] by auto

lemma keeps_order_ref: "keeps_order ref_ext"
proof -
  have "sorted_list_of_set (S - D) = filter (\<lambda>x. x \<notin> D) (sorted_list_of_set S)"
    if "finite S" for S D :: "nat set"
  proof -
    let ?l = "filter (\<lambda>x. x \<notin> D) (sorted_list_of_set S)"
    have "sorted ?l" "distinct ?l" by (simp_all add: sorted_wrt_filter)
    then have "sorted_list_of_set (set ?l) = ?l"
      by (rule sorted_list_of_set.idem_if_sorted_distinct)
    moreover have "set ?l = S - D" using that by auto
    ultimately show ?thesis by simp
  qed
  then show ?thesis by (simp add: keeps_order_def ref_ext_def)
qed

subsection \<open>The pool and the frame after one pass\<close>

lemma finite_full_pool: "finite (full_pool n)"
  by (simp add: full_pool_def)

lemma full_pool_eq: "full_pool n = {..<n}"
  by (auto simp: full_pool_def)

lemma listed_length: "lists_sets ext \<Longrightarrow> finite S \<Longrightarrow> length (set_to_list ext S) = card S"
  by (metis distinct_card lists_sets_def)

lemma listed_mset: "lists_sets ext \<Longrightarrow> finite S \<Longrightarrow> mset (set_to_list ext S) = mset_set S"
  by (metis lists_sets_def mset_set_set)

lemma pick_sorted_self: "self (snd (pick_sorted ext s)) = (self s)\<lparr>rest := (if card (rest (self s)) > batch_size_arg s then rest (self s) - set (fst (pick_sorted ext s)) else full_pool (data_num (self s)))\<rparr>"
  by (simp add: pick_sorted_def Let_def remove_drawn_def rollover_def)

lemma pick_random_self: "self (snd (pick_random ext s)) = (self s)\<lparr>rest := (if card (rest (self s)) > batch_size_arg s then rest (self s) - set (fst (pick_random ext s)) else full_pool (data_num (self s)))\<rparr>"
  by (simp add: pick_random_def Let_def remove_drawn_def rollover_def split: prod.splits)

lemma pick_sorted_frame: "batch_size_arg (snd (pick_sorted ext s)) = batch_size_arg s" "session_arg (snd (pick_sorted ext s)) = session_arg s"
  "next_epoch_flag (snd (pick_sorted ext s)) = (if card (rest (self s)) > batch_size_arg s then next_epoch_flag s else True)"
  by (simp_all add: pick_sorted_def Let_def remove_drawn_def rollover_def)

lemma pick_random_frame: "batch_size_arg (snd (pick_random ext s)) = batch_size_arg s" "session_arg (snd (pick_random ext s)) = session_arg s"
  "next_epoch_flag (snd (pick_random ext s)) = (if card (rest (self s)) > batch_size_arg s then next_epoch_flag s else True)"
  by (simp_all add: pick_random_def Let_def remove_drawn_def rollover_def split: prod.splits)

lemma draw_sorted_state:
  "self (snd (draw_sorted ext s)) = self (snd (pick_sorted ext s))"
  "batch_size_arg (snd (draw_sorted ext s)) = batch_size_arg s"
  "session_arg (snd (draw_sorted ext s)) = session_arg s"
  "next_epoch_flag (snd (draw_sorted ext s)) = next_epoch_flag (snd (pick_sorted ext s))"
  using pick_sorted_frame[of ext s]
  by (auto simp add: draw_sorted_def Let_def split: prod.splits sum.splits)

lemma draw_random_state:
  "self (snd (draw_random ext s)) = self (snd (pick_random ext s))"
  "batch_size_arg (snd (draw_random ext s)) = batch_size_arg s"
  "session_arg (snd (draw_random ext s)) = session_arg s"
  "next_epoch_flag (snd (draw_random ext s)) = next_epoch_flag (snd (pick_random ext s))"
  using pick_random_frame[of ext s]
  by (auto simp add: draw_random_def Let_def split: prod.splits sum.splits)

lemma make_batch_self: "self (snd (make_batch ext s)) = (self s)\<lparr>rest := next_pool ext s\<rparr>"
  by (simp add: make_batch_def draw_sorted_state draw_random_state pick_sorted_self pick_random_self next_pool_def picked_def)

lemma make_batch_frame:
  "batch_size_arg (snd (make_batch ext s)) = batch_size_arg s"
  "session_arg (snd (make_batch ext s)) = session_arg s"
  "next_epoch_flag (snd (make_batch ext s)) = (if card (rest (self s)) > batch_size_arg s then next_epoch_flag s else True)"
  by (simp_all add: make_batch_def draw_sorted_state draw_random_state pick_sorted_frame pick_random_frame)

lemma emit_state:
  "self (snd (emit ext mb s)) = self s"
  "batch_size_arg (snd (emit ext mb s)) = batch_size_arg s"
  "session_arg (snd (emit ext mb s)) = session_arg s"
  "next_epoch_flag (snd (emit ext mb s)) = (if num_gpu (self s) > 1 then False else next_epoch_flag s)"
  by (auto simp add: emit_def choose_divide_num_def Let_def split: prod.splits sum.splits option.splits)


lemma picked_full:
  assumes "runtime_ok ext" "finite (rest (self s))" "card (rest (self s)) > batch_size_arg s"
  shows "mset (picked ext s) \<subseteq># mset_set (rest (self s))"
    and "length (picked ext s) = batch_size_arg s"
proof -
  let ?L = "set_to_list ext (rest (self s))"
  have ls: "lists_sets ext" and sd: "sample_draws ext" using assms(1) by (simp_all add: runtime_ok_def)
  have L: "mset ?L = mset_set (rest (self s))" "length ?L = card (rest (self s))"
    using ls assms(2) by (simp_all add: listed_mset listed_length)
  have le: "batch_size_arg s \<le> length ?L" using L assms(3) by simp
  show "mset (picked ext s) \<subseteq># mset_set (rest (self s))"
  proof (cases "is_sorted (self s)")
    case True
    then show ?thesis using assms(3) L mset_take_subseteq[of "batch_size_arg s" ?L]
      by (simp add: picked_def pick_sorted_def Let_def)
  next
    case False
    then show ?thesis using assms(3) L sd le
      by (auto simp add: picked_def pick_random_def Let_def sample_draws_def split: prod.splits
            dest!: spec[of _ "rng s"] spec[of _ ?L] spec[of _ "batch_size_arg s"])
  qed
  show "length (picked ext s) = batch_size_arg s"
  proof (cases "is_sorted (self s)")
    case True
    then show ?thesis using assms(3) le
      by (simp add: picked_def pick_sorted_def Let_def)
  next
    case False
    then show ?thesis using assms(3) L sd le
      by (auto simp add: picked_def pick_random_def Let_def sample_draws_def split: prod.splits
            dest!: spec[of _ "rng s"] spec[of _ ?L] spec[of _ "batch_size_arg s"])
  qed
qed

lemma picked_rollover:
  assumes "runtime_ok ext" "finite (rest (self s))" "\<not> card (rest (self s)) > batch_size_arg s"
  shows "mset (picked ext s) = mset_set (rest (self s))"
proof -
  let ?L = "set_to_list ext (rest (self s))"
  have ls: "lists_sets ext" and sp: "shuffle_permutes ext" using assms(1) by (simp_all add: runtime_ok_def)
  have L: "mset ?L = mset_set (rest (self s))"
    using ls assms(2) by (simp_all add: listed_mset)
  show ?thesis
  proof (cases "is_sorted (self s)")
    case True
    then show ?thesis using assms(3) L by (simp add: picked_def pick_sorted_def)
  next
    case False
    have "mset (fst (shuffle ext (rng (rollover s)) ?L)) = mset ?L"
      using sp by (simp add: shuffle_permutes_def)
    then show ?thesis using False assms(3) L
      by (auto simp add: picked_def pick_random_def Let_def split: prod.splits)
  qed
qed

lemma mset_sub_mset_set:
  assumes "mset xs \<subseteq># mset_set S" "finite S"
  shows "distinct xs" and "set xs \<subseteq> S"
proof -
  have "count (mset xs) x \<le> 1" for x
  proof -
    have "count (mset xs) x \<le> count (mset_set S) x"
      by (rule mset_subset_eq_count[OF assms(1)])
    also have "\<dots> \<le> 1" using assms(2) by (cases "x \<in> S") simp_all
    finally show ?thesis .
  qed
  then have "\<forall>x. count (mset xs) x = (if x \<in> set xs then 1 else 0)"
    by (metis count_mset_0_iff le_antisym less_one linorder_not_less)
  then show "distinct xs" unfolding distinct_count_atmost_1 by blast
  show "set xs \<subseteq> S" using assms set_mset_mono[OF assms(1)] by simp
qed

lemma make_batch_idx:
  assumes "shuffle_permutes ext" "make_batch ext s = (Inr (idx, mb), s')"
  shows "mset idx = mset (picked ext s)"
proof (cases "is_sorted (self s)")
  case True
  obtain si s1 where p: "pick_sorted ext s = (si, s1)" by (cases "pick_sorted ext s")
  have "mset (fst (shuffle ext (rng s1) si)) = mset si"
    using assms(1) by (simp add: shuffle_permutes_def)
  then show ?thesis using True assms(2) p
    by (auto simp add: make_batch_def draw_sorted_def picked_def Let_def
          split: prod.splits sum.splits if_splits)
next
  case False
  then show ?thesis using assms(2)
    by (auto simp add: make_batch_def draw_random_def picked_def Let_def
          split: prod.splits sum.splits if_splits)
qed

lemma loop_self: "self (snd (next_batch_loop ext s)) = self (snd (make_batch ext s))"
  by (cases "make_batch ext s") (auto simp: next_batch_loop_def emit_state split: sum.splits prod.splits)

subsection \<open>Names\<close>

lemma split_dot_first_one_dot:
  assumes "count_list b CHR ''.'' \<le> 1" "take 1 b \<noteq> ''.''"
  shows "split_dot_first b = spec_strip_extension b"
proof (cases "CHR ''.'' \<in> set b")
  case False
  then have "takeWhile (\<lambda>c. c \<noteq> CHR ''.'') b = b" by auto
  moreover have "CHR ''.'' \<notin> set (dropWhile (\<lambda>c. c = CHR ''.'') b)"
    using False set_dropWhileD by fastforce
  ultimately show ?thesis by (simp add: split_dot_first_def spec_strip_extension_def Let_def)
next
  case True
  then obtain u v where b: "b = u @ CHR ''.'' # v" and u: "CHR ''.'' \<notin> set u"
    by (meson split_list_first)
  have v: "CHR ''.'' \<notin> set v" using assms(1) b u by (auto simp flip: count_list_0_iff)
  have une: "u \<noteq> []" using assms(2) b by auto
  then obtain a u' where u': "u = a # u'" by (cases u) auto
  have a: "a \<noteq> CHR ''.''" using u u' by auto
  have tw: "takeWhile (\<lambda>c. c \<noteq> CHR ''.'') b = u"
    unfolding b using u by (subst takeWhile_append2) auto
  have dw: "dropWhile (\<lambda>c. c = CHR ''.'') b = b" "takeWhile (\<lambda>c. c = CHR ''.'') b = []"
    using b u' a by simp_all
  have "dropWhile (\<lambda>c. c \<noteq> CHR ''.'') (rev b) = CHR ''.'' # rev u"
    unfolding b using v by (simp, subst dropWhile_append2) auto
  then show ?thesis using tw dw True by (simp add: split_dot_first_def spec_strip_extension_def Let_def)
qed


subsection \<open>Collation\<close>

lemma collect_Inr:
  "collect f xs = Inr ys \<Longrightarrow> length ys = length xs \<and> (\<forall>i<length xs. f (xs ! i) = Inr (ys ! i))"
proof (induction xs arbitrary: ys)
  case Nil
  then show ?case by simp
next
  case (Cons x xs)
  then obtain y ys' where y: "f x = Inr y" and ys': "collect f xs = Inr ys'" and e: "ys = y # ys'"
    by (auto split: sum.splits)
  from Cons.IH[OF ys'] y e show ?case by (auto simp: nth_Cons')
qed

lemma assign_prefix_length: "assign_prefix pad m d = Inr row \<Longrightarrow> length row = m"
  by (auto simp: assign_prefix_def split: if_splits)

lemma assign_prefix_fits:
  "assign_prefix pad m d = Inr row \<Longrightarrow> length d \<le> m \<Longrightarrow> row = d @ replicate (m - length d) pad"
  by (auto simp: assign_prefix_def split: if_splits)

lemma fill_one_Inr:
  assumes "fill_one slf mf ms x = Inr (row, lrow, n, nm)"
  shows "x < length (input_list slf)" "x < length (label_list slf)" "x < length (input_paths slf)"
    "assign_prefix 0 mf (input_list slf ! x) = Inr row"
    "assign_prefix padded_value ms (label_list slf ! x) = Inr lrow"
    "n = frame_num slf x" "nm = name_of_path (input_paths slf ! x)"
  using assms
  by (auto simp: fill_one_def index1_def frame_num_def split: sum.splits if_splits)

lemma fill_Inr:
  assumes "fill slf mf ms idx = Inr mb"
  shows "length (inputs mb) = length idx" "length (labels mb) = length idx"
    "length (inputs_seq_len mb) = length idx" "length (input_names mb) = length idx"
    "\<forall>i<length idx. fill_one slf mf ms (idx ! i) =
        Inr (inputs mb ! i, labels mb ! i, inputs_seq_len mb ! i, input_names mb ! i)"
proof -
  from assms obtain rows where r: "collect (fill_one slf mf ms) idx = Inr rows"
    and mb: "mb = \<lparr> inputs = map fst rows, labels = map (\<lambda>r. fst (snd r)) rows,
                inputs_seq_len = map (\<lambda>r. fst (snd (snd r))) rows,
                input_names = map (\<lambda>r. snd (snd (snd r))) rows \<rparr>"
    by (auto simp: fill_def split: sum.splits)
  from collect_Inr[OF r] have l: "length rows = length idx"
    and a: "\<forall>i<length idx. fill_one slf mf ms (idx ! i) = Inr (rows ! i)" by simp_all
  show "length (inputs mb) = length idx" "length (labels mb) = length idx"
    "length (inputs_seq_len mb) = length idx" "length (input_names mb) = length idx"
    using l mb by simp_all
  show "\<forall>i<length idx. fill_one slf mf ms (idx ! i) =
        Inr (inputs mb ! i, labels mb ! i, inputs_seq_len mb ! i, input_names mb ! i)"
    using a l mb by simp
qed

lemma py_max_Inr: "py_max xs = Inr m \<Longrightarrow> xs \<noteq> [] \<and> m = Max (set xs)"
proof (cases xs)
  case Nil
  then show "py_max xs = Inr m \<Longrightarrow> ?thesis" by simp
next
  case (Cons a list)
  then show "py_max xs = Inr m \<Longrightarrow> ?thesis" using Max.set_eq_fold[of a list] by simp
qed

lemma fill_rest_irrelevant: "fill (slf\<lparr>rest := R\<rparr>) a b idx = fill slf a b idx"
proof -
  have "fill_one (slf\<lparr>rest := R\<rparr>) a b = fill_one slf a b"
    by (rule ext) (simp add: fill_one_def cong: sum.case_cong)
  then show ?thesis by (simp add: fill_def)
qed

lemma fancy_Inr: "fancy a idx = Inr ys \<Longrightarrow> ys = map ((!) a) idx \<and> (\<forall>x\<in>set idx. x < length a)"
  by (auto simp: fancy_def split: if_splits)

lemma draw_random_Inr:
  assumes "draw_random ext s = (Inr (idx, mb), s')"
  shows "\<exists>ds mfn labs msl. pick_random ext s = (idx, s') \<and>
      fancy (input_list (self s')) idx = Inr ds \<and> py_max (map length ds) = Inr mfn \<and>
      fancy (label_list (self s')) idx = Inr labs \<and> py_max (map length labs) = Inr msl \<and>
      fill (self s') mfn msl idx = Inr mb"
proof -
  obtain ri s1 where p: "pick_random ext s = (ri, s1)" by (cases "pick_random ext s")
  show ?thesis using assms unfolding draw_random_def p
    by (simp split: sum.splits)
qed

lemma draw_sorted_Inr:
  assumes "draw_sorted ext s = (Inr (idx, mb), s')"
  shows "\<exists>si s1 d labs msl. pick_sorted ext s = (si, s1) \<and> si \<noteq> [] \<and>
      index1 (input_list (self s1)) (last si) = Inr d \<and>
      fancy (label_list (self s1)) si = Inr labs \<and> py_max (map length labs) = Inr msl \<and>
      idx = fst (shuffle ext (rng s1) si) \<and> s' = s1\<lparr>rng := snd (shuffle ext (rng s1) si)\<rparr> \<and>
      fill (self s1) (length d) msl idx = Inr mb"
proof -
  obtain si s1 where p: "pick_sorted ext s = (si, s1)" by (cases "pick_sorted ext s")
  show ?thesis using assms unfolding draw_sorted_def p
    by (simp add: Let_def split: sum.splits if_splits prod.splits)
qed

lemma make_batch_Inr:
  assumes "make_batch ext s = (Inr (idx, mb), s')"
  shows "picked ext s \<noteq> []"
    and "fill (self s) (width_T ext s) (Max (label_num (self s) ` set (picked ext s))) idx = Inr mb"
    and "\<forall>x\<in>set (picked ext s). x < length (label_list (self s))"
    and "\<forall>x\<in>set (picked ext s). \<not> is_sorted (self s) \<or> x = last (picked ext s) \<longrightarrow> x < length (input_list (self s))"
proof -
  have A: "picked ext s \<noteq> [] \<and> fill (self s) (width_T ext s) (Max (label_num (self s) ` set (picked ext s))) idx = Inr mb
     \<and> (\<forall>x\<in>set (picked ext s). x < length (label_list (self s)))
     \<and> (\<forall>x\<in>set (picked ext s). \<not> is_sorted (self s) \<or> x = last (picked ext s) \<longrightarrow> x < length (input_list (self s)))"
  proof (cases "is_sorted (self s)")
    case True
    with assms have "draw_sorted ext s = (Inr (idx, mb), s')" by (simp add: make_batch_def)
    from draw_sorted_Inr[OF this] obtain si s1 d labs msl where p: "pick_sorted ext s = (si, s1)"
      and ne: "si \<noteq> []"
      and d: "index1 (input_list (self s1)) (last si) = Inr d"
      and la: "fancy (label_list (self s1)) si = Inr labs"
      and m: "py_max (map length labs) = Inr msl"
      and f: "fill (self s1) (length d) msl idx = Inr mb"
      by blast
    obtain R where s1: "self s1 = (self s)\<lparr>rest := R\<rparr>"
      using pick_sorted_self[of ext s] p by auto
    have pk: "picked ext s = si" using True p by (simp add: picked_def)
    have il: "input_list (self s1) = input_list (self s)" "label_list (self s1) = label_list (self s)"
      by (simp_all add: s1)
    have ld: "length d = frame_num (self s) (last si)" "last si < length (input_list (self s))"
      using d il by (auto simp: index1_def frame_num_def split: if_splits)
    moreover have "msl = Max (label_num (self s) ` set si)"
      using py_max_Inr[OF m] fancy_Inr[OF la] il by (simp add: label_num_def image_image cong: image_cong)
    moreover have "fill (self s1) a b idx = fill (self s) a b idx" for a b
      by (subst s1) (rule fill_rest_irrelevant)
    ultimately show ?thesis using ne f pk True fancy_Inr[OF la] il by (simp add: width_T_def)
  next
    case False
    with assms have "draw_random ext s = (Inr (idx, mb), s')" by (simp add: make_batch_def)
    from draw_random_Inr[OF this] obtain ds mfn labs msl where p: "pick_random ext s = (idx, s')"
      and d: "fancy (input_list (self s')) idx = Inr ds"
      and md: "py_max (map length ds) = Inr mfn"
      and la: "fancy (label_list (self s')) idx = Inr labs"
      and m: "py_max (map length labs) = Inr msl"
      and f: "fill (self s') mfn msl idx = Inr mb"
      by blast
    obtain R where s1: "self s' = (self s)\<lparr>rest := R\<rparr>"
      using pick_random_self[of ext s] p by auto
    have pk: "picked ext s = idx" using False p by (simp add: picked_def)
    have il: "input_list (self s') = input_list (self s)" "label_list (self s') = label_list (self s)"
      by (simp_all add: s1)
    have "mfn = Max (frame_num (self s) ` set idx)"
      using py_max_Inr[OF md] fancy_Inr[OF d] il by (simp add: frame_num_def image_image cong: image_cong)
    moreover have "msl = Max (label_num (self s) ` set idx)"
      using py_max_Inr[OF m] fancy_Inr[OF la] il by (simp add: label_num_def image_image cong: image_cong)
    moreover have "fill (self s') a b idx = fill (self s) a b idx" for a b
      by (subst s1) (rule fill_rest_irrelevant)
    moreover have "idx \<noteq> []" using py_max_Inr[OF md] fancy_Inr[OF d] by auto
    ultimately show ?thesis using f pk False fancy_Inr[OF la] fancy_Inr[OF d] il by (simp add: width_T_def)
  qed
  then show "picked ext s \<noteq> []"
    and "fill (self s) (width_T ext s) (Max (label_num (self s) ` set (picked ext s))) idx = Inr mb"
    and "\<forall>x\<in>set (picked ext s). x < length (label_list (self s))"
    and "\<forall>x\<in>set (picked ext s). \<not> is_sorted (self s) \<or> x = last (picked ext s) \<longrightarrow> x < length (input_list (self s))"
    by simp_all
qed

lemma sorted_last_Max: "sorted xs \<Longrightarrow> xs \<noteq> [] \<Longrightarrow> last xs = Max (set (xs::nat list))"
proof -
  assume a: "sorted xs" "xs \<noteq> []"
  have "\<forall>x\<in>set xs. x \<le> last xs"
  proof
    fix x assume "x \<in> set xs"
    then obtain i where i: "i < length xs" "xs ! i = x" by (auto simp: in_set_conv_nth)
    then have "xs ! i \<le> xs ! (length xs - 1)" using a(1) by (intro sorted_nth_mono) auto
    then show "x \<le> last xs" using i a(2) by (simp add: last_conv_nth)
  qed
  then show ?thesis using a(2) by (intro Max_eqI[symmetric]) auto
qed

lemma width_T_Max:
  assumes "picked ext s \<noteq> []" "is_sorted (self s) \<longrightarrow> length_ordered ext s"
  shows "width_T ext s = Max (frame_num (self s) ` set (picked ext s))"
proof (cases "is_sorted (self s)")
  case False
  then show ?thesis by (simp add: width_T_def)
next
  case True
  let ?L = "set_to_list ext (rest (self s))"
  obtain n where n: "picked ext s = take n ?L"
    using True by (cases "card (rest (self s)) > batch_size_arg s")
       (auto simp: picked_def pick_sorted_def Let_def intro: that[of "length ?L"])
  have "sorted (map (frame_num (self s)) (picked ext s))"
    using assms(2) True unfolding n length_ordered_def take_map[symmetric] by simp
  from sorted_last_Max[OF this] assms(1) show ?thesis using True
    by (simp add: width_T_def last_map)
qed

lemma make_batch_rows:
  assumes mk: "make_batch ext s = (Inr (idx, mb), s')"
    and sp: "shuffle_permutes ext"
    and lo: "is_sorted (self s) \<longrightarrow> length_ordered ext s"
    and i: "i < length idx"
  shows "inputs mb ! i = input_list (self s) ! (idx ! i)
            @ replicate (Max (frame_num (self s) ` set idx) - frame_num (self s) (idx ! i)) 0"
    and "labels mb ! i = label_list (self s) ! (idx ! i)
            @ replicate (Max (label_num (self s) ` set idx) - label_num (self s) (idx ! i)) padded_value"
    and "inputs_seq_len mb ! i = frame_num (self s) (idx ! i)"
    and "input_names mb ! i = name_of_path (input_paths (self s) ! (idx ! i))"
    and "idx ! i < length (input_list (self s))" and "idx ! i < length (label_list (self s))"
    and "idx ! i < length (input_paths (self s))"
proof -
  have se: "set idx = set (picked ext s)"
    using make_batch_idx[OF sp mk] by (metis set_mset_mset)
  note mb = make_batch_Inr[OF mk]
  have w: "width_T ext s = Max (frame_num (self s) ` set idx)"
    using width_T_Max[OF mb(1) lo] se by simp
  from fill_Inr(5)[OF mb(2)] i
  have "fill_one (self s) (width_T ext s) (Max (label_num (self s) ` set (picked ext s))) (idx ! i) =
        Inr (inputs mb ! i, labels mb ! i, inputs_seq_len mb ! i, input_names mb ! i)" by blast
  note f = fill_one_Inr[OF this]
  have mem: "idx ! i \<in> set idx" using i by simp
  have "frame_num (self s) (idx ! i) \<le> Max (frame_num (self s) ` set idx)"
    using mem by (intro Max_ge) auto
  then show "inputs mb ! i = input_list (self s) ! (idx ! i)
            @ replicate (Max (frame_num (self s) ` set idx) - frame_num (self s) (idx ! i)) 0"
    using assign_prefix_fits[OF f(4)] w by (simp add: frame_num_def)
  have "label_num (self s) (idx ! i) \<le> Max (label_num (self s) ` set idx)"
    using mem by (intro Max_ge) auto
  then show "labels mb ! i = label_list (self s) ! (idx ! i)
            @ replicate (Max (label_num (self s) ` set idx) - label_num (self s) (idx ! i)) padded_value"
    using assign_prefix_fits[OF f(5)] se by (simp add: label_num_def)
  show "inputs_seq_len mb ! i = frame_num (self s) (idx ! i)"
    and "input_names mb ! i = name_of_path (input_paths (self s) ! (idx ! i))"
    and "idx ! i < length (input_list (self s))" and "idx ! i < length (label_list (self s))"
    and "idx ! i < length (input_paths (self s))"
    using f by simp_all
qed

lemma make_batch_lengths:
  assumes mk: "make_batch ext s = (Inr (idx, mb), s')" and sp: "shuffle_permutes ext"
  shows "idx \<noteq> []" "length (inputs mb) = length idx" "length (labels mb) = length idx"
    "length (inputs_seq_len mb) = length idx" "length (input_names mb) = length idx"
proof -
  note mb = make_batch_Inr[OF mk]
  show "length (inputs mb) = length idx" "length (labels mb) = length idx"
    "length (inputs_seq_len mb) = length idx" "length (input_names mb) = length idx"
    using fill_Inr(1-4)[OF mb(2)] by simp_all
  show "idx \<noteq> []"
    using make_batch_idx[OF sp mk] mb(1) by auto
qed

lemma make_batch_names:
  assumes mk: "make_batch ext s = (Inr (idx, mb), s')" and i: "i < length idx"
  shows "input_names mb ! i = name_of_path (input_paths (self s) ! (idx ! i))"
    and "inputs_seq_len mb ! i = frame_num (self s) (idx ! i)"
proof -
  note mb = make_batch_Inr[OF mk]
  from fill_Inr(5)[OF mb(2)] i
  have "fill_one (self s) (width_T ext s) (Max (label_num (self s) ` set (picked ext s))) (idx ! i) =
        Inr (inputs mb ! i, labels mb ! i, inputs_seq_len mb ! i, input_names mb ! i)" by blast
  note f = fill_one_Inr[OF this]
  show "input_names mb ! i = name_of_path (input_paths (self s) ! (idx ! i))"
    and "inputs_seq_len mb ! i = frame_num (self s) (idx ! i)" using f by simp_all
qed

subsection \<open>Evaluation on the sample data\<close>


lemma demo_sorted3:
  "make_batch ref_ext (demo_state True 3 1 5 None) =
     (Inr ([2, 1, 0],
           \<lparr> inputs = [[1, 1, 1, 1], [4, 5, 6, 0], [1, 2, 3, 0]],
             labels = [[4, - 1], [2, 3], [1, - 1]],
             inputs_seq_len = [4, 3, 3],
             input_names = [''u2'', ''u1'', ''u0''] \<rparr>),
      (demo_state True 3 1 5 None)\<lparr> self := (self (demo_state True 3 1 5 None))\<lparr> rest := {3, 4} \<rparr>, rng := 1 \<rparr>)"
  by code_simp

lemma demo_length_ordered: "length_ordered ref_ext (demo_state True b g 5 sess)"
  unfolding length_ordered_def by code_simp

lemma demo_sorted3': "make_batch ref_ext (demo_state True 3 1 5 None) =
     (Inr ([2, 1, 0], demo_batch3),
      (demo_state True 3 1 5 None)\<lparr> self := (self (demo_state True 3 1 5 None))\<lparr> rest := {3, 4} \<rparr>, rng := 1 \<rparr>)"
  unfolding demo_batch3_def by (rule demo_sorted3)

lemma demo_self:
  "input_list (self (demo_state srt b g n sess)) = demo_inputs"
  "label_list (self (demo_state srt b g n sess)) = demo_labels"
  "input_paths (self (demo_state srt b g n sess)) = demo_paths"
  "is_sorted (self (demo_state srt b g n sess)) = srt"
  "num_gpu (self (demo_state srt b g n sess)) = g"
  "data_num (self (demo_state srt b g n sess)) = n"
  "rest (self (demo_state srt b g n sess)) = full_pool n"
  "batch_size (self (demo_state srt b g n sess)) = b * g"
  "batch_size_arg (demo_state srt b g n sess) = b * g"
  "session_arg (demo_state srt b g n sess) = sess"
  "next_epoch_flag (demo_state srt b g n sess) = False"
  by (simp_all add: demo_state_def)

subsection \<open>The errors of one pass\<close>

lemma collect_error: "collect f xs = Inl e \<Longrightarrow> \<exists>x\<in>set xs. f x = Inl e"
  by (induction xs) (auto split: sum.splits)

lemma fill_one_error: "fill_one slf a b x = Inl e \<Longrightarrow> e \<noteq> InvalidArgument"
  by (auto simp: fill_one_def index1_def assign_prefix_def split: sum.splits if_splits)

lemma fill_error: "fill slf a b idx = Inl e \<Longrightarrow> e \<noteq> InvalidArgument"
  by (auto simp: fill_def split: sum.splits dest!: collect_error fill_one_error)

lemma py_max_error: "py_max xs = Inl e \<Longrightarrow> e \<noteq> InvalidArgument"
  by (cases xs) auto

lemma fancy_error: "fancy a xs = Inl e \<Longrightarrow> e \<noteq> InvalidArgument"
  by (auto simp: fancy_def split: if_splits)

lemma index1_error: "index1 a x = Inl e \<Longrightarrow> e \<noteq> InvalidArgument"
  by (auto simp: index1_def split: if_splits)

lemma tf_split_error: "tf_split a x = Inl e \<Longrightarrow> e \<noteq> InvalidArgument"
  by (auto simp: tf_split_def split: if_splits)

lemma draw_sorted_error: "fst (draw_sorted ext s) \<noteq> Inl InvalidArgument"
proof -
  obtain si s1 where p: "pick_sorted ext s = (si, s1)" by (cases "pick_sorted ext s")
  show ?thesis unfolding draw_sorted_def p
    by (auto simp: Let_def split: sum.splits prod.splits
         dest: fill_error py_max_error fancy_error index1_error)
qed

lemma draw_random_error: "fst (draw_random ext s) \<noteq> Inl InvalidArgument"
proof -
  obtain si s1 where p: "pick_random ext s = (si, s1)" by (cases "pick_random ext s")
  show ?thesis unfolding draw_random_def p
    by (auto simp: Let_def split: sum.splits prod.splits
         dest: fill_error py_max_error fancy_error index1_error)
qed

lemma emit_error: "fst (emit ext mb s) \<noteq> Inl InvalidArgument"
  by (auto simp: emit_def Let_def split: sum.splits prod.splits option.splits dest: tf_split_error)

lemma loop_error: "fst (next_batch_loop ext s) \<noteq> Inl InvalidArgument"
proof (cases "make_batch ext s")
  case (Pair a b)
  then show ?thesis 
    using draw_sorted_error[of ext s] draw_random_error[of ext s] emit_error[of ext _ b]
    by (cases a) (auto simp: next_batch_loop_def make_batch_def split: if_splits)
qed

subsection \<open>The index list chosen from the pool\<close>

lemma picked_props:
  assumes ok: "runtime_ok ext" and fin: "finite (rest (self s))"
  shows "distinct (picked ext s)" "set (picked ext s) \<subseteq> rest (self s)"
    "length (picked ext s) = min (batch_size_arg s) (card (rest (self s)))"
    "\<not> batch_size_arg s < card (rest (self s)) \<Longrightarrow> set (picked ext s) = rest (self s)"
proof -
  have A: "distinct (picked ext s) \<and> set (picked ext s) \<subseteq> rest (self s) \<and>
    length (picked ext s) = min (batch_size_arg s) (card (rest (self s))) \<and>
    (\<not> batch_size_arg s < card (rest (self s)) \<longrightarrow> set (picked ext s) = rest (self s))"
  proof (cases "batch_size_arg s < card (rest (self s))")
    case True
    from picked_full[OF ok fin True] mset_sub_mset_set[OF _ fin, of "picked ext s"] True
    show ?thesis by auto
  next
    case False
    from picked_rollover[OF ok fin False]
    have m: "mset (picked ext s) = mset_set (rest (self s))" .
    have "set (picked ext s) = rest (self s)" using m fin
      by (metis finite_set_mset_mset_set set_mset_mset)
    moreover have "distinct (picked ext s)"
      using mset_sub_mset_set(1)[of "picked ext s" "rest (self s)"] m fin by simp
    moreover have "length (picked ext s) = card (rest (self s))"
      using m by (metis size_mset size_mset_set)
    ultimately show ?thesis using False by auto
  qed
  from A show "distinct (picked ext s)" "set (picked ext s) \<subseteq> rest (self s)"
    "length (picked ext s) = min (batch_size_arg s) (card (rest (self s)))" by simp_all
  from A show "\<not> batch_size_arg s < card (rest (self s)) \<Longrightarrow> set (picked ext s) = rest (self s)" by simp
qed

subsection \<open>More evaluation on the sample data\<close>

lemma demo_first_gpu2:
  "next_batch_first ref_ext (self (demo_state True 1 2 5 None)) None None 0 [] =
     (Inl InvalidArgument, self (demo_state True 1 2 5 None), 0, [])"
  by code_simp

lemma demo_first_gpu1:
  "next_batch_first ref_ext (self (demo_state True 2 1 5 None)) None None 0 [] =
     (Inr (Whole [[4, 5, 6], [1, 2, 3]] ([[2, 3], [1, - 1]], - 1) [3, 3] [''u1'', ''u0'']),
      (self (demo_state True 2 1 5 None))\<lparr>rest := {2, 3, 4}\<rparr>, 1, [])"
  by code_simp

lemma demo_begin21:
  "next_batch_begin (self (demo_state True 2 1 5 None)) None None (0::nat) [] =
     Inr (demo_state True 2 1 5 None)"
  by code_simp

lemma demo_sorted2:
  "make_batch ref_ext (demo_state True 2 1 5 None) =
     (Inr ([1, 0], \<lparr> inputs = [[4, 5, 6], [1, 2, 3]], labels = [[2, 3], [1, - 1]],
                     inputs_seq_len = [3, 3], input_names = [''u1'', ''u0''] \<rparr>),
      (demo_state True 2 1 5 None)\<lparr> self := (self (demo_state True 2 1 5 None))\<lparr> rest := {2, 3, 4} \<rparr>, rng := 1 \<rparr>)"
  by code_simp

lemma demo_loop2:
  "rest (self (snd (next_batch_loop ref_ext (demo_state True 2 1 5 None)))) = {2, 3, 4}"
  "picked ref_ext (demo_state True 2 1 5 None) = [0, 1]"
  "card (rest (self (demo_state True 2 1 5 None))) = 5"
  "rest (self (demo_state True 2 1 5 None)) = {0, 1, 2, 3, 4}"
  "batch_size_arg (demo_state True 2 1 5 None) = 2"
  "data_num (self (demo_state True 2 1 5 None)) = 5"
  by code_simp+

subsection \<open>Runs of several passes\<close>

lemma step_state:
  assumes "make_batch ext s = (Inr (idx, mb), s1)" "emit ext mb s1 = (Inr y, s2)"
  shows "self s2 = (self s)\<lparr>rest := next_pool ext s\<rparr>"
    "batch_size_arg s2 = batch_size_arg s" "session_arg s2 = session_arg s"
    "1 < num_gpu (self s) \<Longrightarrow> \<not> next_epoch_flag s2"
proof -
  have a: "s1 = snd (make_batch ext s)" "s2 = snd (emit ext mb s1)" using assms by simp_all
  show "self s2 = (self s)\<lparr>rest := next_pool ext s\<rparr>"
    "batch_size_arg s2 = batch_size_arg s" "session_arg s2 = session_arg s"
    unfolding a by (simp_all add: emit_state make_batch_self make_batch_frame)
  show "1 < num_gpu (self s) \<Longrightarrow> \<not> next_epoch_flag s2"
    unfolding a by (simp add: emit_state make_batch_self)
qed

lemma next_pool_finite: "finite (rest (self s)) \<Longrightarrow> finite (next_pool ext s)"
  by (simp add: next_pool_def finite_full_pool)

lemma run_Suc_Inr:
  assumes "run (Suc k) ext s = Inr (tr, s')"
  obtains idx mb s1 y s2 tr' where "make_batch ext s = (Inr (idx, mb), s1)"
    "emit ext mb s1 = (Inr y, s2)" "run k ext s2 = Inr (tr', s')" "tr = (idx, y) # tr'"
  using assms by (auto split: prod.splits sum.splits)

lemma run_state:
  assumes "run k ext s = Inr (tr, s')"
  shows "\<exists>P. self s' = (self s)\<lparr>rest := P\<rparr>"
    and "batch_size_arg s' = batch_size_arg s" and "session_arg s' = session_arg s"
    and "length tr = k"
    and "finite (rest (self s)) \<Longrightarrow> finite (rest (self s'))"
    and "1 < num_gpu (self s) \<Longrightarrow> \<not> next_epoch_flag s \<Longrightarrow> \<not> next_epoch_flag s'"
proof -
  have "(\<exists>P. self s' = (self s)\<lparr>rest := P\<rparr>) \<and> batch_size_arg s' = batch_size_arg s \<and>
     session_arg s' = session_arg s \<and> length tr = k \<and>
     (finite (rest (self s)) \<longrightarrow> finite (rest (self s'))) \<and>
     (1 < num_gpu (self s) \<longrightarrow> \<not> next_epoch_flag s \<longrightarrow> \<not> next_epoch_flag s')"
    using assms
  proof (induction k arbitrary: s tr)
    case 0
    then have "s' = s" "tr = []" by simp_all
    then show ?case by (auto intro: exI[of _ "rest (self s)"])
  next
    case (Suc k)
    from Suc.prems obtain idx mb s1 y s2 tr' where mk: "make_batch ext s = (Inr (idx, mb), s1)"
      and em: "emit ext mb s1 = (Inr y, s2)" and r: "run k ext s2 = Inr (tr', s')" and t: "tr = (idx, y) # tr'"
      by (rule run_Suc_Inr)
    note st = step_state[OF mk em]
    note ih = Suc.IH[OF r]
    from ih obtain P where P: "self s' = (self s2)\<lparr>rest := P\<rparr>" by blast
    have "self s' = (self s)\<lparr>rest := P\<rparr>" using P st(1) by simp
    moreover have "finite (rest (self s)) \<longrightarrow> finite (rest (self s'))"
      using ih st(1) next_pool_finite[of s ext] by simp
    moreover have "1 < num_gpu (self s) \<longrightarrow> \<not> next_epoch_flag s \<longrightarrow> \<not> next_epoch_flag s'"
      using ih st(1,4) by simp
    ultimately show ?case using ih st(2,3) t by auto
  qed
  then show "\<exists>P. self s' = (self s)\<lparr>rest := P\<rparr>"
    and "batch_size_arg s' = batch_size_arg s" and "session_arg s' = session_arg s"
    and "length tr = k"
    and "finite (rest (self s)) \<Longrightarrow> finite (rest (self s'))"
    and "1 < num_gpu (self s) \<Longrightarrow> \<not> next_epoch_flag s \<Longrightarrow> \<not> next_epoch_flag s'"
    by blast+
qed

subsection \<open>Splitting\<close>

lemma chunks_length: "length (chunks sz k xs) = k"
  by (induction k arbitrary: xs) auto

lemma chunks_sizes: "length xs = sz * k \<Longrightarrow> c \<in> set (chunks sz k xs) \<Longrightarrow> length c = sz"
proof (induction k arbitrary: xs)
  case 0
  then show ?case by simp
next
  case (Suc k)
  have "length (drop sz xs) = sz * k" using Suc.prems(1) by simp
  from Suc.IH[OF this] Suc.prems show ?case by auto
qed

lemma chunks_concat: "length xs = sz * k \<Longrightarrow> concat (chunks sz k xs) = xs"
  by (induction k arbitrary: xs) auto

lemma tf_split_even:
  assumes "0 < k" "length xs mod k = 0"
  shows "tf_split xs k = Inr (chunks (length xs div k) k xs)"
    and "length (chunks (length xs div k) k xs) = k"
    and "\<forall>c\<in>set (chunks (length xs div k) k xs). length c = length xs div k"
    and "concat (chunks (length xs div k) k xs) = xs"
proof -
  have l: "length xs = length xs div k * k" using assms(2) by auto
  show "tf_split xs k = Inr (chunks (length xs div k) k xs)" using assms by (simp add: tf_split_def)
  show "length (chunks (length xs div k) k xs) = k" by (rule chunks_length)
  show "\<forall>c\<in>set (chunks (length xs div k) k xs). length c = length xs div k"
    using chunks_sizes[OF l] by blast
  show "concat (chunks (length xs div k) k xs) = xs" using chunks_concat[OF l] .
qed

lemma zip_replicate_map:
  "map f (zip ls (replicate (length ls) v)) = map (\<lambda>l. f (l, v)) ls"
  by (induction ls) auto

lemma find_divisor_greatest:
  assumes "0 < g"
  shows "find_divisor n g d dvd n \<and> 0 < find_divisor n g d \<and> find_divisor n g d \<le> g \<and>
         (\<forall>x. 0 < x \<and> x \<le> g \<and> x dvd n \<longrightarrow> x \<le> find_divisor n g d)"
  using assms
proof (induction g)
  case 0
  then show ?case by simp
next
  case (Suc i)
  show ?case
  proof (cases "n mod Suc i = 0")
    case True
    then show ?thesis by (auto simp: mod_eq_0_iff_dvd)
  next
    case False
    then have "0 < i" by (cases i) auto
    from Suc.IH[OF this] False show ?thesis
      by (auto simp: mod_eq_0_iff_dvd le_Suc_eq)
  qed
qed

lemma rollover_divide_num:
  assumes "\<not> batch_size_arg s < card (rest (self s))"
  shows "fst (choose_divide_num (snd (make_batch ext s))) =
         find_divisor (data_num (self s)) (num_gpu (self s)) (num_gpu (self s))"
proof -
  have "card (full_pool (data_num (self s))) = data_num (self s)" by (simp add: full_pool_eq)
  then show ?thesis using assms
    by (simp add: choose_divide_num_def make_batch_frame make_batch_self next_pool_def)
qed

subsection \<open>One epoch\<close>



subsection \<open>Successive blocks of the sorted branch\<close>

lemma filter_not_in_take:
  assumes "distinct xs"
  shows "filter (\<lambda>x. x \<notin> set (take n xs)) xs = drop n xs"
proof -
  let ?P = "\<lambda>x. x \<notin> set (take n xs)"
  have d: "set (take n xs) \<inter> set (drop n xs) = {}"
    using assms by (simp add: set_take_disj_set_drop_if_distinct)
  have "filter ?P xs = filter ?P (take n xs @ drop n xs)" by simp
  also have "\<dots> = filter ?P (take n xs) @ filter ?P (drop n xs)" by (rule filter_append)
  also have "filter ?P (take n xs) = []" by (simp add: filter_empty_conv)
  also have "filter ?P (drop n xs) = drop n xs" using d by (auto simp: filter_id_conv)
  finally show ?thesis by simp
qed

lemma sorted_step:
  assumes "is_sorted (self s)" "lists_sets ext" "keeps_order ext" "finite (rest (self s))"
    and "batch_size_arg s < card (rest (self s))"
  shows "picked ext s = take (batch_size_arg s) (set_to_list ext (rest (self s)))"
    and "set_to_list ext (next_pool ext s) = drop (batch_size_arg s) (set_to_list ext (rest (self s)))"
    and "card (next_pool ext s) = card (rest (self s)) - batch_size_arg s"
proof -
  let ?L = "set_to_list ext (rest (self s))" and ?b = "batch_size_arg s"
  show p: "picked ext s = take ?b ?L"
    using assms(1,5) by (simp add: picked_def pick_sorted_def Let_def)
  have dl: "distinct ?L" "set ?L = rest (self s)" "length ?L = card (rest (self s))"
    using assms(2,4) by (simp_all add: lists_sets_def listed_length)
  have np: "next_pool ext s = rest (self s) - set (take ?b ?L)"
    using assms(5) p by (simp add: next_pool_def)
  have "set_to_list ext (rest (self s) - set (take ?b ?L)) = filter (\<lambda>x. x \<notin> set (take ?b ?L)) ?L"
    using assms(3,4) by (simp add: keeps_order_def)
  then show "set_to_list ext (next_pool ext s) = drop ?b ?L"
    using filter_not_in_take[OF dl(1)] np by simp
  have "set (take ?b ?L) \<subseteq> rest (self s)" using dl(2) set_take_subset by fastforce
  moreover have "card (set (take ?b ?L)) = ?b"
    using dl(1,3) assms(5) by (simp add: distinct_card)
  ultimately show "card (next_pool ext s) = card (rest (self s)) - ?b"
    unfolding np using assms(4) by (simp add: card_Diff_subset)
qed

lemma run_sorted_blocks:
  assumes ok: "runtime_ok ext" and ko: "keeps_order ext"
  shows "run k ext s = Inr (tr, s') \<Longrightarrow> is_sorted (self s) \<Longrightarrow> finite (rest (self s)) \<Longrightarrow>
    k * batch_size_arg s < card (rest (self s)) \<Longrightarrow>
    (\<forall>j<k. mset (fst (tr ! j)) =
        mset (take (batch_size_arg s) (drop (j * batch_size_arg s) (set_to_list ext (rest (self s)))))) \<and>
    set_to_list ext (rest (self s')) = drop (k * batch_size_arg s) (set_to_list ext (rest (self s)))"
proof (induction k arbitrary: s tr)
  case 0
  then show ?case by simp
next
  case (Suc k)
  let ?L = "set_to_list ext (rest (self s))" and ?b = "batch_size_arg s"
  have sp: "shuffle_permutes ext" and ls: "lists_sets ext" using ok by (simp_all add: runtime_ok_def)
  from Suc.prems(1) obtain idx mb s1 y s2 tr' where mk: "make_batch ext s = (Inr (idx, mb), s1)"
    and em: "emit ext mb s1 = (Inr y, s2)" and r: "run k ext s2 = Inr (tr', s')" and t: "tr = (idx, y) # tr'"
    by (rule run_Suc_Inr)
  note st = step_state[OF mk em]
  have lt: "?b < card (rest (self s))" using Suc.prems(4)
    by (metis add_lessD1 mult_Suc add.commute)
  note ss = sorted_step[OF Suc.prems(2) ls ko Suc.prems(3) lt]
  have r2: "rest (self s2) = next_pool ext s" "is_sorted (self s2)" using st(1) Suc.prems(2) by simp_all
  have f2: "finite (rest (self s2))" using r2 next_pool_finite[OF Suc.prems(3)] by simp
  have k2: "k * batch_size_arg s2 < card (rest (self s2))"
    using Suc.prems(4) ss(3) r2 st(2) by simp
  from Suc.IH[OF r r2(2) f2 k2]
  have ih: "\<forall>j<k. mset (fst (tr' ! j)) = mset (take ?b (drop (j * ?b) (drop ?b ?L)))"
    "set_to_list ext (rest (self s')) = drop (k * ?b) (drop ?b ?L)"
    using r2 ss(2) st(2) by simp_all
  have i0: "mset idx = mset (take ?b ?L)" using make_batch_idx[OF sp mk] ss(1) by simp
  have "mset (fst (tr ! j)) = mset (take ?b (drop (j * ?b) ?L))" if "j < Suc k" for j
  proof (cases j)
    case 0
    then show ?thesis using t i0 by simp
  next
    case (Suc j')
    then have "j' < k" using that by simp
    with ih(1) have "mset (fst (tr' ! j')) = mset (take ?b (drop (j' * ?b) (drop ?b ?L)))" by blast
    then show ?thesis using t Suc by (simp add: add.commute)
  qed
  moreover have "set_to_list ext (rest (self s')) = drop (Suc k * ?b) ?L"
    using ih(2) by (simp add: add.commute)
  ultimately show ?case by blast
qed

subsection \<open>Runs on the sample data\<close>


lemma demo_gpu2:
  "next_batch_begin (self (demo_state True 1 2 5 (Some Session))) None (Some Session) 0 [] =
     Inr (demo_state True 1 2 5 (Some Session))"
  "run 1 ref_ext (demo_state True 1 2 5 (Some Session)) =
     Inr ([([1, 0], Sharded [[[4, 5, 6]], [[1, 2, 3]]] [([[2, 3]], - 1), ([[1, - 1]], - 1)]
                      [[3], [3]] [[''u1''], [''u0'']])],
          demo_after (demo_state True 1 2 5 (Some Session)) {2, 3, 4} 1)"
  "make_batch ref_ext (demo_after (demo_state True 1 2 5 (Some Session)) {2, 3, 4} 1) =
     (Inr ([3, 2], \<lparr> inputs = [[2, 2, 2, 2], [1, 1, 1, 1]], labels = [[5, 6, 7], [4, - 1, - 1]],
                     inputs_seq_len = [4, 4], input_names = [''u3'', ''u2''] \<rparr>),
      demo_after (demo_state True 1 2 5 (Some Session)) {4} 2)"
  by code_simp+

lemma demo_gpu3:
  "run 1 ref_ext (demo_state True 1 3 4 (Some Session)) =
     Inr ([([2, 1, 0], Sharded [[[1, 1, 1, 1]], [[4, 5, 6, 0]], [[1, 2, 3, 0]]]
                         [([[4, - 1]], - 1), ([[2, 3]], - 1), ([[1, - 1]], - 1)]
                         [[4], [3], [3]] [[''u2''], [''u1''], [''u0'']])],
          demo_after (demo_state True 1 3 4 (Some Session)) {3} 1)"
  by code_simp

lemma demo_run2:
  "run 2 ref_ext (demo_state True 2 1 5 None) =
     Inr ([([1, 0], Whole [[4, 5, 6], [1, 2, 3]] ([[2, 3], [1, - 1]], - 1) [3, 3] [''u1'', ''u0'']),
           ([3, 2], Whole [[2, 2, 2, 2], [1, 1, 1, 1]] ([[5, 6, 7], [4, - 1, - 1]], - 1) [4, 4]
                      [''u3'', ''u2''])],
          demo_after (demo_state True 2 1 5 None) {4} 2)"
  by code_simp

subsection \<open>Passes that succeed\<close>













subsection \<open>Widths and blocks under assumptions on the listing\<close>

lemma padded_widths_ordered:
  assumes "make_batch ext s = (Inr (idx, mb), s')"
    and "shuffle_permutes ext"
    and "is_sorted (self s) \<longrightarrow> length_ordered ext s"
  shows "idx \<noteq> [] \<and> length (inputs mb) = length idx \<and> length (labels mb) = length idx \<and>
         (\<forall>row \<in> set (inputs mb). length row = Max (frame_num (self s) ` set idx)) \<and>
         (\<forall>row \<in> set (labels mb). length row = Max (label_num (self s) ` set idx))"
proof -
  note l = make_batch_lengths[OF assms(1,2)]
  have a: "length (inputs mb ! i) = Max (frame_num (self s) ` set idx)
      \<and> length (labels mb ! i) = Max (label_num (self s) ` set idx)" if "i < length idx" for i
  proof -
    note r = make_batch_rows[OF assms that]
    have mem: "idx ! i \<in> set idx" using that by simp
    have "frame_num (self s) (idx ! i) \<le> Max (frame_num (self s) ` set idx)"
      "label_num (self s) (idx ! i) \<le> Max (label_num (self s) ` set idx)"
      using mem by (auto intro!: Max_ge)
    then show ?thesis unfolding r(1) r(2) by (simp add: frame_num_def label_num_def)
  qed
  show ?thesis using l a by (auto simp: in_set_conv_nth)
qed

lemma sorted_contiguous_blocks:
  assumes "runtime_ok ext" and "keeps_order ext" and "is_sorted (self s)"
    and "finite (rest (self s))"
    and "run k ext s = Inr (tr, s')"
    and "k * batch_size_arg s < card (rest (self s))"
    and "j < k"
  shows "mset (fst (tr ! j)) =
           mset (take (batch_size_arg s) (drop (j * batch_size_arg s) (set_to_list ext (rest (self s))))) \<and>
         set (fst (tr ! j)) =
           set (take (batch_size_arg s) (drop (j * batch_size_arg s) (set_to_list ext (rest (self s))))) \<and>
         set_to_list ext (rest (self s')) =
           drop (k * batch_size_arg s) (set_to_list ext (rest (self s)))"
proof -
  note b = run_sorted_blocks[OF assms(1,2,5,3,4,6)]
  from b assms(7) have m: "mset (fst (tr ! j)) =
           mset (take (batch_size_arg s) (drop (j * batch_size_arg s) (set_to_list ext (rest (self s)))))"
    by blast
  then have "set (fst (tr ! j)) =
           set (take (batch_size_arg s) (drop (j * batch_size_arg s) (set_to_list ext (rest (self s)))))"
    by (rule mset_eq_setD)
  with m b show ?thesis by blast
qed

subsection \<open>The CPython listing meets the assumptions\<close>

lemma runtime_ok_cpython: "runtime_ok cpython_ext"
proof -
  have "set (set_to_list cpython_ext S) = S \<and> distinct (set_to_list cpython_ext S)"
    if "finite S" for S
    using that by (auto simp: cpython_ext_def ref_ext_def)
  moreover have "shuffle cpython_ext = shuffle ref_ext" "sample cpython_ext = sample ref_ext"
    by (simp_all add: cpython_ext_def)
  ultimately show ?thesis using runtime_ok_ref
    by (simp add: runtime_ok_def lists_sets_def shuffle_permutes_def sample_draws_def)
qed

lemma seventeen_third:
  "make_batch cpython_ext (seventeen uniform17 2 {14, 15, 16} 2) =
     (Inr ([14, 16], \<lparr> inputs = [[1], [1]], labels = [[1], [1]], inputs_seq_len = [1, 1],
                        input_names = [''u'', ''u''] \<rparr>),
      seventeen uniform17 2 {15} 3)"
  by code_simp

subsection \<open>Rows of a batch, whatever the listing\<close>




subsection \<open>The pool under one pass of the body\<close>

lemma pool_invariant:
  assumes "runtime_ok ext" and "rest (self s) \<subseteq> {..<data_num (self s)}"
  shows "data_num (self (snd (next_batch_loop ext s))) = data_num (self s) \<and>
     rest (self (snd (next_batch_loop ext s))) \<subseteq> {..<data_num (self s)} \<and>
     (card (rest (self s)) \<le> batch_size_arg s \<longrightarrow>
        rest (self (snd (next_batch_loop ext s))) = {..<data_num (self s)}) \<and>
     (batch_size_arg s < card (rest (self s)) \<longrightarrow>
        rest (self (snd (next_batch_loop ext s))) = rest (self s) - set (picked ext s)) \<and>
     (\<forall>idx mb s1. make_batch ext s = (Inr (idx, mb), s1) \<longrightarrow>
        set idx = set (picked ext s) \<and> distinct idx \<and> set idx \<subseteq> rest (self s) \<and>
        (batch_size_arg s < card (rest (self s)) \<longrightarrow>
           set idx \<inter> rest (self (snd (next_batch_loop ext s))) = {}))"
proof -
  have fin: "finite (rest (self s))" using assms(2) by (rule finite_subset) simp
  have sp: "shuffle_permutes ext" using assms(1) by (simp add: runtime_ok_def)
  note pp = picked_props[OF assms(1) fin]
  have st: "self (snd (next_batch_loop ext s)) = (self s)\<lparr>rest := next_pool ext s\<rparr>"
    by (simp add: loop_self make_batch_self)
  have i: "set idx = set (picked ext s) \<and> distinct idx" if "make_batch ext s = (Inr (idx, mb), s1)" for idx mb s1
    using make_batch_idx[OF sp that] pp(1) by (metis mset_eq_setD mset_eq_imp_distinct_iff)
  show ?thesis using assms(2) pp(2) i
    by (auto simp: st next_pool_def full_pool_eq)
qed

subsection \<open>A first batch for two replicas\<close>

lemma demo_begin22:
  "next_batch_begin (self (demo_state True 2 2 5 (Some Session))) None (Some Session) (0::nat) [] =
     Inr (demo_state True 2 2 5 (Some Session))"
  by code_simp

lemma demo_sorted4:
  "make_batch ref_ext (demo_state True 2 2 5 (Some Session)) =
     (Inr ([3, 2, 1, 0],
           \<lparr> inputs = [[2, 2, 2, 2], [1, 1, 1, 1], [4, 5, 6, 0], [1, 2, 3, 0]],
              labels = [[5, 6, 7], [4, - 1, - 1], [2, 3, - 1], [1, - 1, - 1]],
              inputs_seq_len = [4, 4, 3, 3], input_names = [''u3'', ''u2'', ''u1'', ''u0''] \<rparr>),
      demo_after (demo_state True 2 2 5 (Some Session)) {4} 1)"
  by code_simp

section \<open>The claims\<close>

text \<open>
  C9, as stated, fails: the second batch of the sorted iterator over the sample data draws
  index 3, whose path is \<^verbatim>\<open>a/u3.x.npy\<close>; the name entry produced is \<^verbatim>\<open>u3\<close>,
  while the base name without its extension is \<^verbatim>\<open>u3.x\<close>.
\<close>

theorem C9_name_not_extension_stripped_counterexample:
  "fst (make_batch ref_ext (demo_after (demo_state True 2 1 5 None) {2, 3, 4} 1)) =
     Inr ([3, 2], \<lparr> inputs = [[2, 2, 2, 2], [1, 1, 1, 1]], labels = [[5, 6, 7], [4, - 1, - 1]],
                     inputs_seq_len = [4, 4], input_names = [''u3'', ''u2''] \<rparr>) \<and>
   input_paths (self (demo_after (demo_state True 2 1 5 None) {2, 3, 4} 1)) ! 3 = ''a/u3.x.npy'' \<and>
   spec_strip_extension (basename ''a/u3.x.npy'') = ''u3.x'' \<and>
   name_of_path ''a/u3.x.npy'' \<noteq> spec_strip_extension (basename ''a/u3.x.npy'')"
  by (intro conjI; code_simp)

text \<open>
  C9, amended: the name entry of a drawn example is the base name of its path cut at the
  first dot. It contains no dot, the base name continues after it with a dot or not at all,
  and it is the base name without its extension whenever the base name has at most one dot
  and does not begin with it.
\<close>

theorem C9_name_of_path:
  "(make_batch ext s = (Inr (idx, mb), s') \<and> i < length idx \<longrightarrow>
      input_names mb ! i = name_of_path (input_paths (self s) ! (idx ! i))) \<and>
   CHR ''.'' \<notin> set (name_of_path p) \<and>
   (\<exists>suffix. basename p = name_of_path p @ suffix \<and> (suffix = [] \<or> hd suffix = CHR ''.'')) \<and>
   (count_list (basename p) CHR ''.'' \<le> 1 \<and> take 1 (basename p) \<noteq> ''.'' \<longrightarrow>
      name_of_path p = spec_strip_extension (basename p))"
proof (intro conjI impI)
  show "CHR ''.'' \<notin> set (name_of_path p)"
    by (auto simp: name_of_path_def split_dot_first_def dest: set_takeWhileD)
  let ?b = "basename p"
  have "?b = name_of_path p @ dropWhile (\<lambda>c. c \<noteq> CHR ''.'') ?b"
    by (simp add: name_of_path_def split_dot_first_def)
  moreover have "dropWhile (\<lambda>c. c \<noteq> CHR ''.'') ?b = [] \<or> hd (dropWhile (\<lambda>c. c \<noteq> CHR ''.'') ?b) = CHR ''.''"
    using hd_dropWhile[of "\<lambda>c. c \<noteq> CHR ''.''" ?b] by blast
  ultimately show "\<exists>suffix. ?b = name_of_path p @ suffix \<and> (suffix = [] \<or> hd suffix = CHR ''.'')" by blast
next
  assume "count_list (basename p) CHR ''.'' \<le> 1 \<and> take 1 (basename p) \<noteq> ''.''"
  then show "name_of_path p = spec_strip_extension (basename p)"
    using split_dot_first_one_dot[of "basename p"] by (simp add: name_of_path_def)
next
  assume "make_batch ext s = (Inr (idx, mb), s') \<and> i < length idx"
  then show "input_names mb ! i = name_of_path (input_paths (self s) ! (idx ! i))"
    using make_batch_names(1) by blast
qed

theorem C9_name_of_path_witness:
  "input_names demo_batch3 ! 1 = ''u1'' \<and> name_of_path (demo_paths ! 1) = ''u1'' \<and>
   spec_strip_extension (basename (demo_paths ! 1)) = ''u1''"
proof -
  let ?s = "demo_state True 3 1 5 None"
  have p: "demo_paths ! 1 = ''a/u1.npy''" by (simp add: demo_paths_def)
  have a: "count_list (basename ''a/u1.npy'') CHR ''.'' \<le> 1 \<and> take 1 (basename ''a/u1.npy'') \<noteq> ''.''"
    by (simp add: basename_def)
  have b: "name_of_path ''a/u1.npy'' = ''u1''"
    by (simp add: name_of_path_def split_dot_first_def basename_def)
  have i: "(1::nat) < length [2, 1, 0::nat]" by simp
  note c = C9_name_of_path[of ref_ext ?s "[2, 1, 0]" demo_batch3 _ 1 "''a/u1.npy''"]
  from c demo_sorted3' i have "input_names demo_batch3 ! 1 = name_of_path (input_paths (self ?s) ! ([2, 1, 0] ! 1))"
    by blast
  moreover have "input_paths (self ?s) ! ([2, 1, 0] ! 1) = ''a/u1.npy''" by code_simp
  ultimately have n: "input_names demo_batch3 ! 1 = ''u1''" using b by metis
  from c a have "name_of_path ''a/u1.npy'' = spec_strip_extension (basename ''a/u1.npy'')" by blast
  with n b p show ?thesis by metis
qed

text \<open>
  C5: when \<open>num_gpu\<close> exceeds one and no session is given, the first resumption of the
  generator fails with \<open>InvalidArgument\<close> and leaves the object (the pool included), the
  random state and the output as they were; no batch is computed. With \<open>num_gpu = 1\<close> the
  check passes without a session and the resumption never ends in that error.
\<close>

theorem C5_session_required:
  "(1 < num_gpu slf \<longrightarrow>
      next_batch_first ext slf bsize None r out = (Inl InvalidArgument, slf, r, out)) \<and>
   (num_gpu slf = 1 \<longrightarrow>
      (\<exists>s. next_batch_begin slf bsize None r out = Inr s \<and> self s = slf) \<and>
      fst (next_batch_first ext slf bsize None r out) \<noteq> Inl InvalidArgument)"
proof (intro conjI impI)
  assume "1 < num_gpu slf"
  then show "next_batch_first ext slf bsize None r out = (Inl InvalidArgument, slf, r, out)"
    by (simp add: next_batch_first_def next_batch_begin_def)
next
  assume g: "num_gpu slf = 1"
  then show "\<exists>s. next_batch_begin slf bsize None r out = Inr s \<and> self s = slf"
    by (simp add: next_batch_begin_def)
  then obtain s where s: "next_batch_begin slf bsize None r out = Inr s" by blast
  show "fst (next_batch_first ext slf bsize None r out) \<noteq> Inl InvalidArgument"
    using loop_error[of ext s] by (auto simp add: next_batch_first_def s split: prod.splits)
qed

theorem C5_session_required_witness:
  "next_batch_first ref_ext (self (demo_state True 1 2 5 None)) None None 0 [] =
     (Inl InvalidArgument, self (demo_state True 1 2 5 None), 0, []) \<and>
   fst (next_batch_first ref_ext (self (demo_state True 2 1 5 None)) None None 0 []) =
     Inr (Whole [[4, 5, 6], [1, 2, 3]] ([[2, 3], [1, - 1]], - 1) [3, 3] [''u1'', ''u0''])"
proof -
  have g2: "1 < num_gpu (self (demo_state True 1 2 5 None))" by (simp add: demo_self)
  have g1: "num_gpu (self (demo_state True 2 1 5 None)) = 1" by (simp add: demo_self)
  from C5_session_required[of "self (demo_state True 1 2 5 None)" ref_ext None 0 "[]"] g2
  have a: "next_batch_first ref_ext (self (demo_state True 1 2 5 None)) None None 0 [] =
     (Inl InvalidArgument, self (demo_state True 1 2 5 None), 0, [])" by blast
  from C5_session_required[of "self (demo_state True 2 1 5 None)" ref_ext None 0 "[]"] g1
  have "fst (next_batch_first ref_ext (self (demo_state True 2 1 5 None)) None None 0 []) \<noteq> Inl InvalidArgument"
    by blast
  with a demo_first_gpu1 show ?thesis by simp
qed

text \<open>
  C8: in a generator started on an object with \<open>num_gpu = g > 1\<close>, after any number of
  batches, a full batch (no rollover) whose size \<open>B\<close> is a multiple of \<open>g\<close> is yielded as
  \<open>g\<close> shards for each of the four components; the shards of the inputs, lengths and names
  have \<open>B div g\<close> entries each and are consecutive slices of the dense arrays, and the label
  shards are the sparse forms of the consecutive slices of the label matrix.
\<close>

theorem C8_full_batch_shards:
  assumes "runtime_ok ext" and "finite (rest slf)" and "num_gpu slf = g" and "1 < g"
    and "next_batch_begin slf bsize sess r out = Inr s0"
    and "run k ext s0 = Inr (tr, s)"
    and "batch_size_arg s < card (rest (self s))"
    and "batch_size_arg s mod g = 0"
    and "make_batch ext s = (Inr (idx, mb), s1)"
  shows "\<exists>ins labs lens names.
      next_batch_loop ext s = (Inr (Sharded ins labs lens names), s1) \<and>
      length idx = batch_size_arg s \<and>
      length ins = g \<and> length labs = g \<and> length lens = g \<and> length names = g \<and>
      (\<forall>sh \<in> set ins. length sh = batch_size_arg s div g) \<and>
      (\<forall>sh \<in> set lens. length sh = batch_size_arg s div g) \<and>
      (\<forall>sh \<in> set names. length sh = batch_size_arg s div g) \<and>
      concat ins = inputs mb \<and> concat lens = inputs_seq_len mb \<and> concat names = input_names mb \<and>
      labs = map (\<lambda>l. list2sparsetensor_zipped ext (l, padded_value))
                 (chunks (batch_size_arg s div g) g (labels mb))"
proof -
  let ?B = "batch_size_arg s"
  have s0: "self s0 = slf" "session_arg s0 = sess" "\<not> next_epoch_flag s0" "sess \<noteq> None"
    using assms(3,4,5) by (auto simp: next_batch_begin_def split: if_splits)
  from run_state(1)[OF assms(6)] obtain P where P: "self s = slf\<lparr>rest := P\<rparr>" using s0 by auto
  have g: "num_gpu (self s) = g" using P assms(3) by simp
  have fl: "\<not> next_epoch_flag s" using run_state(6)[OF assms(6)] s0 assms(3,4) by simp
  have se: "session_arg s = sess" using run_state(3)[OF assms(6)] s0 by simp
  have fin: "finite (rest (self s))" using run_state(5)[OF assms(6)] s0 assms(2) by simp
  have sp: "shuffle_permutes ext" using assms(1) by (simp add: runtime_ok_def)
  have s1: "s1 = snd (make_batch ext s)" using assms(9) by simp
  have g1: "num_gpu (self s1) = g" "\<not> next_epoch_flag s1" "session_arg s1 = sess"
    unfolding s1 using g fl se assms(7) by (simp_all add: make_batch_self make_batch_frame)
  have "length idx = length (picked ext s)"
    using make_batch_idx[OF sp assms(9)] by (metis size_mset)
  then have li: "length idx = ?B" using picked_props(3)[OF assms(1) fin] assms(7) by simp
  note ml = make_batch_lengths[OF assms(9) sp]
  have k: "0 < g" using assms(4) by simp
  have m: "length (inputs mb) mod g = 0" "length (labels mb) mod g = 0"
    "length (inputs_seq_len mb) mod g = 0" "length (input_names mb) mod g = 0"
    using ml li assms(8) by simp_all
  note t1 = tf_split_even[OF k m(1)] and t2 = tf_split_even[OF k m(2)]
    and t3 = tf_split_even[OF k m(3)] and t4 = tf_split_even[OF k m(4)]
  obtain ss where ss: "sess = Some ss" using s0(4) by (cases sess) auto
  have l: "length (inputs mb) = ?B" "length (labels mb) = ?B"
    "length (inputs_seq_len mb) = ?B" "length (input_names mb) = ?B" using ml li by simp_all
  have e: "emit ext mb s1 = (Inr (Sharded (chunks (?B div g) g (inputs mb))
      (map (\<lambda>l. list2sparsetensor_zipped ext (l, padded_value)) (chunks (?B div g) g (labels mb)))
      (chunks (?B div g) g (inputs_seq_len mb)) (chunks (?B div g) g (input_names mb))), s1)"
    using g1 assms(4) t1(1) t2(1) t3(1) t4(1) ss l
    by (simp add: emit_def choose_divide_num_def zip_replicate_map)
  have "next_batch_loop ext s = emit ext mb s1" using assms(9) by (simp add: next_batch_loop_def)
  then show ?thesis using e li t1(2-4) t2(2) t3(2-4) t4(2-4) l
    by (simp add: chunks_length)
qed

theorem C8_full_batch_shards_witness:
  "\<exists>ins labs lens names.
     next_batch_loop ref_ext (demo_after (demo_state True 1 2 5 (Some Session)) {2, 3, 4} 1) =
       (Inr (Sharded ins labs lens names), demo_after (demo_state True 1 2 5 (Some Session)) {4} 2) \<and>
     length ins = 2 \<and> length labs = 2 \<and> length lens = 2 \<and> length names = 2 \<and>
     concat ins = [[2, 2, 2, 2], [1, 1, 1, 1]] \<and> concat lens = [4, 4] \<and>
     concat names = [''u3'', ''u2'']"
proof -
  let ?d = "demo_state True 1 2 5 (Some Session)"
  let ?s = "demo_after ?d {2, 3, 4} 1"
  let ?mb = "\<lparr> inputs = [[2, 2, 2, 2], [1, 1, 1, 1::nat]], labels = [[5, 6, 7], [4, - 1, - 1]],
                inputs_seq_len = [4, 4], input_names = [''u3'', ''u2''] \<rparr>"
  have h: "finite (rest (self ?d))" "num_gpu (self ?d) = 2" "1 < (2::nat)"
    by (simp_all add: demo_self finite_full_pool)
  have f: "batch_size_arg ?s < card (rest (self ?s))" "batch_size_arg ?s mod 2 = 0" by code_simp+
  have c: "\<exists>ins labs lens names.
      next_batch_loop ref_ext ?s = (Inr (Sharded ins labs lens names), demo_after ?d {4} 2) \<and>
      length [3, 2::nat] = batch_size_arg ?s \<and>
      length ins = 2 \<and> length labs = 2 \<and> length lens = 2 \<and> length names = 2 \<and>
      (\<forall>sh \<in> set ins. length sh = batch_size_arg ?s div 2) \<and>
      (\<forall>sh \<in> set lens. length sh = batch_size_arg ?s div 2) \<and>
      (\<forall>sh \<in> set names. length sh = batch_size_arg ?s div 2) \<and>
      concat ins = inputs ?mb \<and> concat lens = inputs_seq_len ?mb \<and>
      concat names = input_names ?mb \<and>
      labs = map (\<lambda>l. list2sparsetensor_zipped ref_ext (l, padded_value))
                 (chunks (batch_size_arg ?s div 2) 2 (labels ?mb))"
    by (rule C8_full_batch_shards[OF runtime_ok_ref h demo_gpu2(1) demo_gpu2(2) f demo_gpu2(3)])
  then obtain ins labs lens names where
    "next_batch_loop ref_ext ?s = (Inr (Sharded ins labs lens names), demo_after ?d {4} 2)"
    "length ins = 2" "length labs = 2" "length lens = 2" "length names = 2"
    "concat ins = inputs ?mb" "concat lens = inputs_seq_len ?mb" "concat names = input_names ?mb"
    by (elim exE conjE)
  then show ?thesis by simp
qed

text \<open>
  C4 fails on the code. With four examples, \<open>batch_size = 1\<close> and \<open>num_gpu = 3\<close> the
  first batch takes the indices 0, 1, 2; the second is the short batch of the single index 3,
  at a rollover. The split count chosen for it is 2, the largest divisor of the size of the
  pool after its reset (4), not of the batch length (1), for which it would be 1; splitting
  one row in two fails.
\<close>

theorem C4_short_batch_split_uses_dataset_size:
  "run 1 ref_ext (demo_state True 1 3 4 (Some Session)) =
     Inr ([([2, 1, 0], Sharded [[[1, 1, 1, 1]], [[4, 5, 6, 0]], [[1, 2, 3, 0]]]
                         [([[4, - 1]], - 1), ([[2, 3]], - 1), ([[1, - 1]], - 1)]
                         [[4], [3], [3]] [[''u2''], [''u1''], [''u0'']])],
          demo_after (demo_state True 1 3 4 (Some Session)) {3} 1) \<and>
   fst (make_batch ref_ext (demo_after (demo_state True 1 3 4 (Some Session)) {3} 1)) =
     Inr ([3], \<lparr> inputs = [[2, 2, 2, 2]], labels = [[5, 6, 7]], inputs_seq_len = [4],
                  input_names = [''u3''] \<rparr>) \<and>
   fst (choose_divide_num
          (snd (make_batch ref_ext (demo_after (demo_state True 1 3 4 (Some Session)) {3} 1)))) = 2 \<and>
   find_divisor 1 3 3 = 1 \<and>
   fst (next_batch_loop ref_ext (demo_after (demo_state True 1 3 4 (Some Session)) {3} 1)) =
     Inl UnevenSplit"
  by (intro conjI; code_simp)




text \<open>
  C3, in the sorted branch, on a dataset ordered by frame count: sixteen examples without a
  frame followed by a one-frame example, batch size 7. The first two batches leave the pool
  \<open>{14, 15, 16}\<close>, which CPython lists as \<open>16, 14, 15\<close>. The width of the third batch is
  the frame count of index 15, the last listed (line 97), which is 0, while the largest frame
  count among the three drawn examples is 1. The shuffled branch takes the maximum over the
  drawn examples (lines 144 and 145), and the comment of line 96 announces the same.
\<close>

theorem C3_sorted_width_is_last_listed:
  "sorted (map (frame_num (self (seventeen empty16_one 7 (full_pool 17) 0))) [0..<17]) \<and>
   snd (projr (run 2 cpython_ext (seventeen empty16_one 7 (full_pool 17) 0))) =
     seventeen empty16_one 7 {14, 15, 16} 2 \<and>
   set_to_list cpython_ext {14, 15, 16} = [16, 14, 15] \<and>
   fst (make_batch cpython_ext (seventeen empty16_one 7 {14, 15, 16} 2)) =
     Inr ([15, 14, 16], \<lparr> inputs = [[], [], []], labels = [[1], [1], [1]],
                            inputs_seq_len = [0, 0, 1], input_names = [''u'', ''u'', ''u''] \<rparr>) \<and>
   width_T cpython_ext (seventeen empty16_one 7 {14, 15, 16} 2) = 0 \<and>
   Max (frame_num (self (seventeen empty16_one 7 {14, 15, 16} 2)) ` set [15, 14, 16]) = 1"
  by (intro conjI; code_simp)

text \<open>
  C7, at construction: the constructor stores \<^verbatim>\<open>None\<close> as the number of examples (line 52) and
  then builds the pool from \<^verbatim>\<open>range(self.data_num)\<close> (line 57). Whatever its arguments, it
  raises \<^verbatim>\<open>TypeError\<close> there, and the pool has not been assigned.
\<close>

theorem C7_constructor_raises:
  "DatasetBase_init dtype ltype bsize num_stack num_skip srt progressbar ngpu =
     (Inl TypeError,
      \<lparr> st_data_type = dtype, st_label_type = ltype, st_batch_size = bsize * ngpu,
        st_is_sorted = srt, st_is_progressbar = progressbar, st_num_gpu = ngpu,
        st_data_num = None, st_rest = None \<rparr>)"
  by (simp add: DatasetBase_init_def py_range_def)

text \<open>
  C10: the constructor stores \<open>batch_size * num_gpu\<close> as the batch size (line 38, before it
  raises at line 57). On an object with that stored batch size, a generator started without a
  size of its own takes it as its batch size (lines 75 and 76), and whenever the pool holds at
  least that many indices the batch produced has exactly \<open>batch_size * num_gpu\<close> examples.
\<close>

theorem C10_effective_batch_size:
  assumes "runtime_ok ext"
    and "batch_size slf = st_batch_size (snd (DatasetBase_init dtype ltype bsize num_stack num_skip srt progressbar ngpu))"
    and "finite (rest slf)" and "bsize * ngpu \<le> card (rest slf)"
    and "next_batch_begin slf None sess r out = Inr s"
    and "make_batch ext s = (Inr (idx, mb), s')"
  shows "st_batch_size (snd (DatasetBase_init dtype ltype bsize num_stack num_skip srt progressbar ngpu)) = bsize * ngpu \<and>
         batch_size_arg s = bsize * ngpu \<and> length idx = bsize * ngpu \<and>
         length (inputs mb) = bsize * ngpu \<and> length (labels mb) = bsize * ngpu \<and>
         length (inputs_seq_len mb) = bsize * ngpu \<and> length (input_names mb) = bsize * ngpu"
proof -
  have st: "st_batch_size (snd (DatasetBase_init dtype ltype bsize num_stack num_skip srt progressbar ngpu)) = bsize * ngpu"
    by (simp add: DatasetBase_init_def py_range_def)
  have s: "self s = slf" "batch_size_arg s = bsize * ngpu"
    using assms(5,2) st by (auto simp: next_batch_begin_def split: if_splits)
  have fin: "finite (rest (self s))" and c: "bsize * ngpu \<le> card (rest (self s))"
    using s assms(3,4) by simp_all
  have sp: "shuffle_permutes ext" using assms(1) by (simp add: runtime_ok_def)
  have "length idx = length (picked ext s)"
    using make_batch_idx[OF sp assms(6)] by (metis size_mset)
  also have "\<dots> = bsize * ngpu" using picked_props(3)[OF assms(1) fin] s c by simp
  finally have l: "length idx = bsize * ngpu" .
  show ?thesis using l s st make_batch_lengths[OF assms(6) sp] by simp
qed

theorem C10_effective_batch_size_witness:
  "DatasetBase_init ''train'' ''phone'' 2 None None True False 2 =
     (Inl TypeError,
      \<lparr> st_data_type = ''train'', st_label_type = ''phone'', st_batch_size = 4, st_is_sorted = True,
        st_is_progressbar = False, st_num_gpu = 2, st_data_num = None, st_rest = None \<rparr>) \<and>
   batch_size (self (demo_state True 2 2 5 (Some Session))) = 4 \<and>
   batch_size_arg (demo_state True 2 2 5 (Some Session)) = 2 * 2 \<and>
   fst (make_batch ref_ext (demo_state True 2 2 5 (Some Session))) =
     Inr ([3, 2, 1, 0],
           \<lparr> inputs = [[2, 2, 2, 2], [1, 1, 1, 1], [4, 5, 6, 0], [1, 2, 3, 0]],
              labels = [[5, 6, 7], [4, - 1, - 1], [2, 3, - 1], [1, - 1, - 1]],
              inputs_seq_len = [4, 4, 3, 3], input_names = [''u3'', ''u2'', ''u1'', ''u0''] \<rparr>) \<and>
   length [3, 2, 1, 0::nat] = 2 * 2"
proof -
  let ?s = "demo_state True 2 2 5 (Some Session)"
  have i: "DatasetBase_init ''train'' ''phone'' 2 None None True False 2 =
     (Inl TypeError,
      \<lparr> st_data_type = ''train'', st_label_type = ''phone'', st_batch_size = 4, st_is_sorted = True,
        st_is_progressbar = False, st_num_gpu = 2, st_data_num = None, st_rest = None \<rparr>)"
    by code_simp
  have b: "batch_size (self ?s) = 4" by code_simp
  have h: "batch_size (self ?s) = st_batch_size (snd (DatasetBase_init ''train'' ''phone'' 2 None None True False 2))"
    unfolding i b by simp
  have f: "finite (rest (self ?s))" by (simp add: demo_self finite_full_pool)
  have c: "2 * 2 \<le> card (rest (self ?s))" by code_simp
  from C10_effective_batch_size[OF runtime_ok_ref h f c demo_begin22 demo_sorted4]
  have "batch_size_arg ?s = 2 * 2 \<and> length [3, 2, 1, 0::nat] = 2 * 2" by blast
  then show ?thesis using i b demo_sorted4 by simp
qed




text \<open>
  C6, as stated, fails: sorted branch, seventeen one-frame examples, batch size 7. The pool is
  listed as \<open>0, \<dots>, 16\<close> at first; two full batches draw the blocks 0 to 6 and 7 to 13, and
  the remaining pool, \<open>14, 15, 16\<close> in that order, is then listed by CPython as
  \<open>16, 14, 15\<close>: the set difference has reordered it. A generator started on the same object
  with batch size 2 then draws a full batch of the indices 16 and 14, which is not the next
  block of two, 14 and 15.
\<close>

theorem C6_sorted_blocks_counterexample:
  "set_to_list cpython_ext (rest (self (seventeen uniform17 7 (full_pool 17) 0))) = [0..<17] \<and>
   map fst (fst (projr (run 2 cpython_ext (seventeen uniform17 7 (full_pool 17) 0)))) =
     [[6, 5, 4, 3, 2, 1, 0], [13, 12, 11, 10, 9, 8, 7]] \<and>
   snd (projr (run 2 cpython_ext (seventeen uniform17 7 (full_pool 17) 0))) =
     seventeen uniform17 7 {14, 15, 16} 2 \<and>
   drop (2 * 7) [0..<17] = [14, 15, 16] \<and>
   set_to_list cpython_ext (rest (self (seventeen uniform17 7 {14, 15, 16} 2))) = [16, 14, 15] \<and>
   next_batch_begin (self (seventeen uniform17 7 {14, 15, 16} 2)) (Some 2) None 2 [] =
     Inr (seventeen uniform17 2 {14, 15, 16} 2) \<and>
   fst (make_batch cpython_ext (seventeen uniform17 2 {14, 15, 16} 2)) =
     Inr ([14, 16], \<lparr> inputs = [[1], [1]], labels = [[1], [1]], inputs_seq_len = [1, 1],
                        input_names = [''u'', ''u''] \<rparr>) \<and>
   rest (self (snd (make_batch cpython_ext (seventeen uniform17 2 {14, 15, 16} 2)))) = {15} \<and>
   set [14, 16] \<noteq> set (take 2 (drop (2 * 7) [0..<17]))"
  by (intro conjI; code_simp)

text \<open>
  C6, amended: in the sorted branch a full batch is a permutation of the first \<open>batch_size\<close>
  indices of the pool in the order in which the pool is listed at that pass, and these indices
  leave the pool. On a runtime where removing elements from a set does not change the order
  in which the remaining ones are listed (Python does not promise it), the \<open>j\<close>-th of
  consecutive full batches is a permutation of the \<open>j\<close>-th block of \<open>batch_size\<close> indices
  of the first listing, and the pool left behind lists the rest.
\<close>

theorem C6_sorted_blocks:
  "(make_batch ext s = (Inr (idx, mb), s1) \<and> is_sorted (self s) \<and> runtime_ok ext \<and>
      finite (rest (self s)) \<and> batch_size_arg s < card (rest (self s)) \<longrightarrow>
      mset idx = mset (take (batch_size_arg s) (set_to_list ext (rest (self s)))) \<and>
      set idx = set (take (batch_size_arg s) (set_to_list ext (rest (self s)))) \<and>
      rest (self s1) = rest (self s) - set idx) \<and>
   (runtime_ok ext \<and> keeps_order ext \<and> is_sorted (self s) \<and> finite (rest (self s)) \<and>
      run k ext s = Inr (tr, s') \<and> k * batch_size_arg s < card (rest (self s)) \<and> j < k \<longrightarrow>
      mset (fst (tr ! j)) =
        mset (take (batch_size_arg s) (drop (j * batch_size_arg s) (set_to_list ext (rest (self s))))) \<and>
      set (fst (tr ! j)) =
        set (take (batch_size_arg s) (drop (j * batch_size_arg s) (set_to_list ext (rest (self s))))) \<and>
      set_to_list ext (rest (self s')) =
        drop (k * batch_size_arg s) (set_to_list ext (rest (self s))))"
proof (intro conjI impI)
  assume h: "make_batch ext s = (Inr (idx, mb), s1) \<and> is_sorted (self s) \<and> runtime_ok ext \<and>
      finite (rest (self s)) \<and> batch_size_arg s < card (rest (self s))"
  then have mk: "make_batch ext s = (Inr (idx, mb), s1)" and srt: "is_sorted (self s)"
    and ok: "runtime_ok ext" and lt: "batch_size_arg s < card (rest (self s))" by simp_all
  have sp: "shuffle_permutes ext" using ok by (simp add: runtime_ok_def)
  have p: "picked ext s = take (batch_size_arg s) (set_to_list ext (rest (self s)))"
    using srt lt by (simp add: picked_def pick_sorted_def Let_def)
  show m: "mset idx = mset (take (batch_size_arg s) (set_to_list ext (rest (self s))))"
    using make_batch_idx[OF sp mk] p by simp
  then show e: "set idx = set (take (batch_size_arg s) (set_to_list ext (rest (self s))))"
    by (rule mset_eq_setD)
  have "self s1 = (self s)\<lparr>rest := next_pool ext s\<rparr>"
    using make_batch_self[of ext s] mk by simp
  then show "rest (self s1) = rest (self s) - set idx"
    using lt e p by (simp add: next_pool_def)
next
  assume h: "runtime_ok ext \<and> keeps_order ext \<and> is_sorted (self s) \<and> finite (rest (self s)) \<and>
      run k ext s = Inr (tr, s') \<and> k * batch_size_arg s < card (rest (self s)) \<and> j < k"
  then have a: "runtime_ok ext" "keeps_order ext" "is_sorted (self s)" "finite (rest (self s))"
    "run k ext s = Inr (tr, s')" "k * batch_size_arg s < card (rest (self s))" "j < k" by simp_all
  note c = sorted_contiguous_blocks[OF a]
  show "mset (fst (tr ! j)) =
        mset (take (batch_size_arg s) (drop (j * batch_size_arg s) (set_to_list ext (rest (self s)))))"
    using c by (rule conjunct1)
  show "set (fst (tr ! j)) =
        set (take (batch_size_arg s) (drop (j * batch_size_arg s) (set_to_list ext (rest (self s)))))"
    using c[THEN conjunct2] by (rule conjunct1)
  show "set_to_list ext (rest (self s')) =
        drop (k * batch_size_arg s) (set_to_list ext (rest (self s)))"
    using c[THEN conjunct2] by (rule conjunct2)
qed

theorem C6_sorted_blocks_witness:
  "fst (make_batch cpython_ext (seventeen uniform17 2 {14, 15, 16} 2)) =
     Inr ([14, 16], \<lparr> inputs = [[1], [1]], labels = [[1], [1]], inputs_seq_len = [1, 1],
                        input_names = [''u'', ''u''] \<rparr>) \<and>
   set [14, 16] = set (take 2 [16, 14, 15::nat]) \<and>
   rest (self (seventeen uniform17 2 {15} 3)) = {14, 15, 16} - set [14, 16] \<and>
   fst (fst (projr (run 2 ref_ext (demo_state True 2 1 5 None))) ! 1) = [3, 2] \<and>
   set [3, 2] = set (take 2 (drop (1 * 2) [0, 1, 2, 3, 4::nat])) \<and>
   set_to_list ref_ext (rest (self (demo_after (demo_state True 2 1 5 None) {4} 2))) =
     drop (2 * 2) [0, 1, 2, 3, 4]"
proof -
  let ?t = "seventeen uniform17 2 {14, 15, 16} 2"
  have et: "batch_size_arg ?t = 2" "rest (self ?t) = {14, 15, 16}"
    "set_to_list cpython_ext {14, 15, 16} = [16, 14, 15]"
    by code_simp+
  have ht: "make_batch cpython_ext ?t =
      (Inr ([14, 16], \<lparr> inputs = [[1], [1]], labels = [[1], [1]], inputs_seq_len = [1, 1],
                        input_names = [''u'', ''u''] \<rparr>), seventeen uniform17 2 {15} 3) \<and>
      is_sorted (self ?t) \<and> runtime_ok cpython_ext \<and>
      finite (rest (self ?t)) \<and> batch_size_arg ?t < card (rest (self ?t))"
    using seventeen_third runtime_ok_cpython by (simp add: seventeen_def)
  note c1 = C6_sorted_blocks[where ext = cpython_ext and s = "?t", THEN conjunct1, rule_format, OF ht, unfolded et]
  let ?s = "demo_state True 2 1 5 None"
  have e: "batch_size_arg ?s = 2" "set_to_list ref_ext (rest (self ?s)) = [0, 1, 2, 3, 4]"
    "card (rest (self ?s)) = 5"
    by code_simp+
  have hs: "runtime_ok ref_ext \<and> keeps_order ref_ext \<and> is_sorted (self ?s) \<and> finite (rest (self ?s)) \<and>
      run 2 ref_ext ?s = Inr ([([1, 0], Whole [[4, 5, 6], [1, 2, 3]] ([[2, 3], [1, - 1]], - 1) [3, 3] [''u1'', ''u0'']),
           ([3, 2], Whole [[2, 2, 2, 2], [1, 1, 1, 1]] ([[5, 6, 7], [4, - 1, - 1]], - 1) [4, 4]
                      [''u3'', ''u2''])],
          demo_after (demo_state True 2 1 5 None) {4} 2) \<and>
      2 * batch_size_arg ?s < card (rest (self ?s)) \<and> (1::nat) < 2"
    using runtime_ok_ref keeps_order_ref demo_run2 unfolding e by (simp add: demo_self finite_full_pool)
  note c2 = C6_sorted_blocks[where ext = ref_ext and s = "?s", THEN conjunct2, rule_format, OF hs, unfolded e]
  have a: "fst (fst (projr (run 2 ref_ext ?s)) ! 1) = [3, 2]" unfolding demo_run2 by simp
  have b: "set [3, 2] = set (take 2 (drop (1 * 2) [0, 1, 2, 3, 4::nat]))"
    using c2[THEN conjunct2, THEN conjunct1] by simp
  have d: "fst (make_batch cpython_ext ?t) =
     Inr ([14, 16], \<lparr> inputs = [[1], [1]], labels = [[1], [1]], inputs_seq_len = [1, 1],
                        input_names = [''u'', ''u''] \<rparr>)"
    using seventeen_third by simp
  from a b d c1[THEN conjunct2, THEN conjunct1] c1[THEN conjunct2, THEN conjunct2]
    c2[THEN conjunct2, THEN conjunct2]
  show ?thesis by (intro conjI)
qed

end
